theory Spec2Isabelle
  imports Complex_Main "HOL-Library.Multiset" "HOL-Library.Product_Lexorder"
begin

section \<open>SmartHub electric usage: the snapshot pipeline of ElectricUsagewithPrices.py\<close>

text \<open>
  The development embeds \<^verbatim>\<open>convert_timestamp\<close>, \<^verbatim>\<open>process_data\<close>,
  \<^verbatim>\<open>parse_datetime\<close> and \<^verbatim>\<open>save_to_json\<close> of
  \<^verbatim>\<open>src/ElectricUsagewithPrices.py\<close>. The Python standard library they call
  (\<^verbatim>\<open>datetime\<close>, \<^verbatim>\<open>strftime\<close>, \<^verbatim>\<open>strptime\<close>, \<^verbatim>\<open>dict\<close>) is modelled after
  CPython: the proleptic Gregorian calendar of \<^verbatim>\<open>datetime\<close>, the regular expression
  \<^verbatim>\<open>_strptime\<close> builds for the format, and insertion-ordered dictionaries.
\<close>

subsection \<open>Exceptions\<close>

text \<open>
  The exceptions the modelled functions can raise. \<open>ValueError\<close> stands for the failure
  of \<^verbatim>\<open>datetime.fromtimestamp\<close> on an instant outside the years 1 to 9999 (CPython reports
  it as ValueError, OverflowError or OSError depending on the magnitude). \<open>OverflowError\<close>
  is raised by \<^verbatim>\<open>timedelta\<close>, by datetime arithmetic leaving that range, and by the
  conversion of an integer too large for a float. \<open>TypeError\<close> is the comparison of
  \<^verbatim>\<open>None\<close> with a datetime, the division of \<^verbatim>\<open>None\<close> and the iteration over
  \<^verbatim>\<open>None\<close>; \<open>AttributeError\<close> is \<^verbatim>\<open>.get\<close> on \<^verbatim>\<open>None\<close>. \<open>UnicodeDecodeError\<close> and
  \<open>RecursionError\<close> are raised while the snapshot file is read.
\<close>

datatype error =
  ValueError | OverflowError | TypeError | AttributeError | UnicodeDecodeError | RecursionError

subsection \<open>Numbers\<close>

text \<open>
  A Python float is an IEEE 754 double: a sign (\<open>True\<close> for negative) with a magnitude,
  an infinity with its sign, or NaN. The magnitude of a finite value is the rational
  number the double denotes (a multiple of a power of two with at most 53 significant
  bits), and zero has a sign.
\<close>

datatype pyfloat = Finite bool rat | Infinity bool | NaN

text \<open>\<^verbatim>\<open>int.bit_length\<close>, for a number that is not negative.\<close>

function bit_length :: "int \<Rightarrow> int" where
  "bit_length n = (if n \<le> 0 then 0 else 1 + bit_length (n div 2))"
  by pat_completeness auto
termination
  by (relation "measure nat") auto

declare bit_length.simps [simp del]

definition pow2 :: "int \<Rightarrow> rat" where
  "pow2 e = (if 0 \<le> e then 2 ^ nat e else 1 / 2 ^ nat (- e))"

text \<open>The exponent of a positive rational: the \<open>k\<close> with \<open>2 ^ k \<le> x < 2 ^ (k + 1)\<close>.\<close>

definition ilog2 :: "rat \<Rightarrow> int" where
  "ilog2 x =
    (if 1 \<le> x then bit_length \<lfloor>x\<rfloor> - 1
     else - bit_length (\<lceil>1 / x\<rceil> - 1))"

definition round_half_even :: "rat \<Rightarrow> int" where
  "round_half_even q =
    (let f = \<lfloor>q\<rfloor>; d = q - of_int f
     in if d < 1 / 2 then f
        else if 1 / 2 < d then f + 1
        else if even f then f else f + 1)"

text \<open>
  Rounding of an exact magnitude to a double, to nearest with ties to even: the
  result is a multiple of \<open>2 ^ e\<close>, where \<open>e\<close> leaves 53 significant bits and is at least
  -1074 (the subnormal range); a result of \<open>2 ^ 1024\<close> or more overflows to infinity.
\<close>

definition round_double :: "bool \<Rightarrow> rat \<Rightarrow> pyfloat" where
  "round_double sg x =
    (if x = 0 then Finite sg 0
     else
       let e = max (ilog2 x - 52) (- 1074);
           r = of_int (round_half_even (x / pow2 e)) * pow2 e
       in if 1024 \<le> ilog2 r then Infinity sg else Finite sg r)"

text \<open>The product of two floats.\<close>

fun fmul :: "pyfloat \<Rightarrow> pyfloat \<Rightarrow> pyfloat" where
  "fmul NaN _ = NaN"
| "fmul _ NaN = NaN"
| "fmul (Finite s a) (Finite t b) = round_double (s \<noteq> t) (a * b)"
| "fmul (Finite s a) (Infinity t) = (if a = 0 then NaN else Infinity (s \<noteq> t))"
| "fmul (Infinity s) (Finite t b) = (if b = 0 then NaN else Infinity (s \<noteq> t))"
| "fmul (Infinity s) (Infinity t) = Infinity (s \<noteq> t)"

text \<open>
  A JSON or YAML number is an \<^verbatim>\<open>int\<close> or a \<^verbatim>\<open>float\<close>. \<^verbatim>\<open>float(n)\<close> rounds an integer
  to the nearest double and raises OverflowError when there is none.
\<close>

datatype pynum = PInt int | PFloat pyfloat

definition float_of_int :: "int \<Rightarrow> error + pyfloat" where
  "float_of_int n =
    (case round_double (n < 0) (of_int \<bar>n\<bar>) of
       Infinity s \<Rightarrow> Inl OverflowError
     | Finite s x \<Rightarrow> Inr (Finite s x)
     | NaN \<Rightarrow> Inr NaN)"

text \<open>
  \<^verbatim>\<open>a * b\<close> on numbers: exact on two integers, otherwise the integer operand is
  converted and the floats are multiplied.
\<close>

fun py_mul :: "pynum \<Rightarrow> pynum \<Rightarrow> error + pynum" where
  "py_mul (PInt a) (PInt b) = Inr (PInt (a * b))"
| "py_mul (PInt a) (PFloat y) =
    (case float_of_int a of Inl e \<Rightarrow> Inl e | Inr x \<Rightarrow> Inr (PFloat (fmul x y)))"
| "py_mul (PFloat x) (PInt b) =
    (case float_of_int b of Inl e \<Rightarrow> Inl e | Inr y \<Rightarrow> Inr (PFloat (fmul x y)))"
| "py_mul (PFloat x) (PFloat y) = Inr (PFloat (fmul x y))"

text \<open>Truth value of a number: only zero is false (NaN and the infinities are true).\<close>

fun truthy :: "pynum \<Rightarrow> bool" where
  "truthy (PInt n) = (n \<noteq> 0)"
| "truthy (PFloat (Finite s x)) = (x \<noteq> 0)"
| "truthy (PFloat (Infinity s)) = True"
| "truthy (PFloat NaN) = True"

subsection \<open>The calendar of \<^verbatim>\<open>datetime\<close>\<close>

text \<open>
  An aware datetime whose tzinfo is \<^verbatim>\<open>pytz.utc\<close>; every datetime of the program has
  that tzinfo, so it is not a field.
\<close>

record datetime =
  year :: int
  month :: int
  day :: int
  hour :: int
  minute :: int
  second :: int
  microsecond :: int

definition MINYEAR :: int where "MINYEAR = 1"
definition MAXYEAR :: int where "MAXYEAR = 9999"
definition MAXORDINAL :: int where "MAXORDINAL = 3652059"

text \<open>The month tables, indexed from 1 (index 0 is a placeholder, as in CPython).\<close>

definition DAYS_IN_MONTH :: "int list" where
  "DAYS_IN_MONTH = [-1, 31, 28, 31, 30, 31, 30, 31, 31, 30, 31, 30, 31]"

definition DAYS_BEFORE_MONTH :: "int list" where
  "DAYS_BEFORE_MONTH = [-1, 0, 31, 59, 90, 120, 151, 181, 212, 243, 273, 304, 334]"

definition is_leap :: "int \<Rightarrow> bool" where
  "is_leap y = (y mod 4 = 0 \<and> (y mod 100 \<noteq> 0 \<or> y mod 400 = 0))"

definition days_before_year :: "int \<Rightarrow> int" where
  "days_before_year y = (y - 1) * 365 + (y - 1) div 4 - (y - 1) div 100 + (y - 1) div 400"

definition days_in_month :: "int \<Rightarrow> int \<Rightarrow> int" where
  "days_in_month y m = (if m = 2 \<and> is_leap y then 29 else DAYS_IN_MONTH ! nat m)"

definition days_before_month :: "int \<Rightarrow> int \<Rightarrow> int" where
  "days_before_month y m = DAYS_BEFORE_MONTH ! nat m + (if 2 < m \<and> is_leap y then 1 else 0)"

definition ymd2ord :: "int \<Rightarrow> int \<Rightarrow> int \<Rightarrow> int" where
  "ymd2ord y m d = days_before_year y + days_before_month y m + d"

text \<open>
  The end of \<^verbatim>\<open>_ord2ymd\<close>: month and day of the \<open>n\<close>-th day of a year (from 0), by an
  estimate of the month that is corrected downwards when it is too large.
\<close>

definition month_of_yday :: "bool \<Rightarrow> int \<Rightarrow> int \<times> int" where
  "month_of_yday leapyear n =
    (let m = (n + 50) div 32;
         preceding = DAYS_BEFORE_MONTH ! nat m + (if 2 < m \<and> leapyear then 1 else 0)
     in if n < preceding
        then (m - 1,
              n - (preceding - (DAYS_IN_MONTH ! nat (m - 1)
                                + (if m - 1 = 2 \<and> leapyear then 1 else 0))) + 1)
        else (m, n - preceding + 1))"

text \<open>
  \<^verbatim>\<open>_ord2ymd\<close>: the date of a proleptic Gregorian ordinal (day 1 is 0001-01-01), by
  400-, 100-, 4- and 1-year cycles.
\<close>

definition ord2ymd :: "int \<Rightarrow> int \<times> int \<times> int" where
  "ord2ymd n0 =
    (let n = n0 - 1;
         n400 = n div 146097; n = n mod 146097;
         n100 = n div 36524; n = n mod 36524;
         n4 = n div 1461; n = n mod 1461;
         n1 = n div 365; n = n mod 365;
         y = n400 * 400 + 1 + n100 * 100 + n4 * 4 + n1
     in if n1 = 4 \<or> n100 = 4 then (y - 1, 12, 31)
        else
          let leapyear = (n1 = 3 \<and> (n4 \<noteq> 24 \<or> n100 = 3))
          in case month_of_yday leapyear n of (m, d) \<Rightarrow> (y, m, d))"

text \<open>The field checks of the \<^verbatim>\<open>datetime\<close> constructor (each failure is a ValueError).\<close>

definition check_date_fields :: "int \<Rightarrow> int \<Rightarrow> int \<Rightarrow> bool" where
  "check_date_fields y m d =
    (MINYEAR \<le> y \<and> y \<le> MAXYEAR \<and> 1 \<le> m \<and> m \<le> 12 \<and> 1 \<le> d \<and> d \<le> days_in_month y m)"

definition check_time_fields :: "int \<Rightarrow> int \<Rightarrow> int \<Rightarrow> bool" where
  "check_time_fields h mi s = (0 \<le> h \<and> h \<le> 23 \<and> 0 \<le> mi \<and> mi \<le> 59 \<and> 0 \<le> s \<and> s \<le> 59)"

text \<open>
  Comparison of two datetimes with the same tzinfo: CPython compares the tuples of
  fields lexicographically.
\<close>

definition dt_tuple :: "datetime \<Rightarrow> int \<times> int \<times> int \<times> int \<times> int \<times> int \<times> int" where
  "dt_tuple d = (year d, month d, day d, hour d, minute d, second d, microsecond d)"

definition dt_le :: "datetime \<Rightarrow> datetime \<Rightarrow> bool" where
  "dt_le a b = (dt_tuple a \<le> dt_tuple b)"


text \<open>
  \<^verbatim>\<open>dt - timedelta(days=n)\<close> for a whole number of days: \<^verbatim>\<open>timedelta\<close> accepts at most
  999999999 days in magnitude, and the result must have an ordinal in 1 .. MAXORDINAL;
  the time of day is unchanged.
\<close>

definition sub_days :: "datetime \<Rightarrow> int \<Rightarrow> error + datetime" where
  "sub_days dt n =
    (if n < - 999999999 \<or> 999999999 < n then Inl OverflowError
     else
       let ord = ymd2ord (year dt) (month dt) (day dt) - n
       in if 0 < ord \<and> ord \<le> MAXORDINAL
          then (case ord2ymd ord of
                  (y, m, d) \<Rightarrow> Inr (dt\<lparr>year := y, month := m, day := d\<rparr>))
          else Inl OverflowError)"

subsection \<open>Characters and decimal text\<close>

text \<open>
  A string is a list of 8-bit characters, each standing for the code point of that
  number. Among them the regular expression classes \<^verbatim>\<open>\d\<close> and \<^verbatim>\<open>\s\<close> match the
  ASCII digits and the white space characters listed in \<open>is_space\<close>.
\<close>

definition is_digit :: "char \<Rightarrow> bool" where
  "is_digit c = (48 \<le> (of_char c :: nat) \<and> (of_char c :: nat) \<le> 57)"

definition is_space :: "char \<Rightarrow> bool" where
  "is_space c =
    (let k = (of_char c :: nat)
     in (9 \<le> k \<and> k \<le> 13) \<or> (28 \<le> k \<and> k \<le> 32) \<or> k = 133 \<or> k = 160)"

definition in_range :: "char \<Rightarrow> char \<Rightarrow> char \<Rightarrow> bool" where
  "in_range lo hi c = ((of_char lo :: nat) \<le> of_char c \<and> (of_char c :: nat) \<le> of_char hi)"

definition digit_val :: "char \<Rightarrow> nat" where
  "digit_val c = of_char c - 48"

definition digit_char :: "nat \<Rightarrow> char" where
  "digit_char d = char_of (48 + d)"

fun dec_str :: "nat \<Rightarrow> string" where
  "dec_str n = (if n < 10 then [digit_char n] else dec_str (n div 10) @ [digit_char (n mod 10)])"

declare dec_str.simps [simp del]

definition zfill :: "nat \<Rightarrow> string \<Rightarrow> string" where
  "zfill w s = replicate (w - length s) (CHR ''0'') @ s"

text \<open>\<^verbatim>\<open>int(s)\<close> on a matched group: leading white space is skipped, the rest are digits.\<close>

definition int_of_str :: "string \<Rightarrow> int" where
  "int_of_str s = int (foldl (\<lambda>a c. 10 * a + digit_val c) 0 (dropWhile is_space s))"

subsection \<open>\<^verbatim>\<open>strftime('%Y-%m-%d %H:%M:%S')\<close>\<close>

text \<open>
  The fields \<^verbatim>\<open>%m %d %H %M %S\<close> are two digits, zero filled. \<^verbatim>\<open>%Y\<close> is the year in
  decimal; whether a year below 1000 is zero filled to four digits depends on the C
  library and the Python version, so it is a parameter \<open>zero_fill\<close> of the model.
\<close>

definition strftime :: "bool \<Rightarrow> datetime \<Rightarrow> string" where
  "strftime zero_fill dt =
    (if zero_fill then zfill 4 (dec_str (nat (year dt))) else dec_str (nat (year dt)))
    @ ''-'' @ zfill 2 (dec_str (nat (month dt)))
    @ ''-'' @ zfill 2 (dec_str (nat (day dt)))
    @ '' '' @ zfill 2 (dec_str (nat (hour dt)))
    @ '':'' @ zfill 2 (dec_str (nat (minute dt)))
    @ '':'' @ zfill 2 (dec_str (nat (second dt)))"

subsection \<open>\<^verbatim>\<open>strptime\<close> with the format \<^verbatim>\<open>'%Y-%m-%d %H:%M:%S'\<close>\<close>

text \<open>
  A regular expression is modelled by the list of its matches at the start of a string,
  in the priority order of a backtracking matcher: each match is the text consumed and
  the text left.
\<close>

type_synonym rx = "string \<Rightarrow> (string \<times> string) list"

definition rx_class :: "(char \<Rightarrow> bool) \<Rightarrow> rx" where
  "rx_class P s = (case s of [] \<Rightarrow> [] | c # r \<Rightarrow> if P c then [([c], r)] else [])"

definition rx_chr :: "char \<Rightarrow> rx" where
  "rx_chr c = rx_class (\<lambda>x. x = c)"

definition rx_seq :: "rx \<Rightarrow> rx \<Rightarrow> rx" where
  "rx_seq p q s = concat (map (\<lambda>(a, r). map (\<lambda>(b, r'). (a @ b, r')) (q r)) (p s))"

definition rx_alt :: "rx \<Rightarrow> rx \<Rightarrow> rx" where
  "rx_alt p q s = p s @ q s"

text \<open>\<^verbatim>\<open>\s+\<close>, greedy: the longest run of white space first.\<close>

fun rx_spaces :: rx where
  "rx_spaces [] = []"
| "rx_spaces (c # r) =
    (if is_space c then map (\<lambda>(a, r'). (c # a, r')) (rx_spaces r) @ [([c], r)] else [])"

definition rx_digit :: rx where
  "rx_digit = rx_class is_digit"

text \<open>The groups of \<^verbatim>\<open>_strptime.TimeRE\<close> that the format uses.\<close>

definition rx_Y :: rx where
  \<comment> \<open>\<^verbatim>\<open>\d\d\d\d\<close>\<close>
  "rx_Y = rx_seq rx_digit (rx_seq rx_digit (rx_seq rx_digit rx_digit))"

definition rx_m :: rx where
  \<comment> \<open>\<^verbatim>\<open>1[0-2]|0[1-9]|[1-9]\<close>\<close>
  "rx_m =
    rx_alt (rx_seq (rx_chr (CHR ''1'')) (rx_class (in_range (CHR ''0'') (CHR ''2''))))
   (rx_alt (rx_seq (rx_chr (CHR ''0'')) (rx_class (in_range (CHR ''1'') (CHR ''9''))))
           (rx_class (in_range (CHR ''1'') (CHR ''9''))))"

definition rx_d :: rx where
  \<comment> \<open>\<^verbatim>\<open>3[0-1]|[1-2]\d|0[1-9]|[1-9]| [1-9]\<close>\<close>
  "rx_d =
    rx_alt (rx_seq (rx_chr (CHR ''3'')) (rx_class (in_range (CHR ''0'') (CHR ''1''))))
   (rx_alt (rx_seq (rx_class (in_range (CHR ''1'') (CHR ''2''))) rx_digit)
   (rx_alt (rx_seq (rx_chr (CHR ''0'')) (rx_class (in_range (CHR ''1'') (CHR ''9''))))
   (rx_alt (rx_class (in_range (CHR ''1'') (CHR ''9'')))
           (rx_seq (rx_chr (CHR '' '')) (rx_class (in_range (CHR ''1'') (CHR ''9'')))))))"

definition rx_H :: rx where
  \<comment> \<open>\<^verbatim>\<open>2[0-3]|[0-1]\d|\d\<close>\<close>
  "rx_H =
    rx_alt (rx_seq (rx_chr (CHR ''2'')) (rx_class (in_range (CHR ''0'') (CHR ''3''))))
   (rx_alt (rx_seq (rx_class (in_range (CHR ''0'') (CHR ''1''))) rx_digit)
           rx_digit)"

definition rx_M :: rx where
  \<comment> \<open>\<^verbatim>\<open>[0-5]\d|\d\<close>\<close>
  "rx_M = rx_alt (rx_seq (rx_class (in_range (CHR ''0'') (CHR ''5''))) rx_digit) rx_digit"

definition rx_S :: rx where
  \<comment> \<open>\<^verbatim>\<open>6[0-1]|[0-5]\d|\d\<close>\<close>
  "rx_S =
    rx_alt (rx_seq (rx_chr (CHR ''6'')) (rx_class (in_range (CHR ''0'') (CHR ''1''))))
   (rx_alt (rx_seq (rx_class (in_range (CHR ''0'') (CHR ''5''))) rx_digit)
           rx_digit)"

text \<open>
  All matches of the compiled format, with the six groups, in priority order;
  \<^verbatim>\<open>re.match\<close> returns the first.
\<close>

definition strptime_match ::
  "string \<Rightarrow> ((string \<times> string \<times> string \<times> string \<times> string \<times> string) \<times> string) list" where
  "strptime_match s =
    [((y, m, d, hh, mi, ss), r11).
       (y, r1) \<leftarrow> rx_Y s, (x1, r2) \<leftarrow> rx_chr (CHR ''-'') r1,
       (m, r3) \<leftarrow> rx_m r2, (x2, r4) \<leftarrow> rx_chr (CHR ''-'') r3,
       (d, r5) \<leftarrow> rx_d r4, (x3, r6) \<leftarrow> rx_spaces r5,
       (hh, r7) \<leftarrow> rx_H r6, (x4, r8) \<leftarrow> rx_chr (CHR '':'') r7,
       (mi, r9) \<leftarrow> rx_M r8, (x5, r10) \<leftarrow> rx_chr (CHR '':'') r9,
       (ss, r11) \<leftarrow> rx_S r10]"

text \<open>
  \<^verbatim>\<open>datetime.strptime(date_str, '%Y-%m-%d %H:%M:%S')\<close>: no match, text left over after
  the first match, and fields that are no date or time of day are each a ValueError.
\<close>

definition strptime :: "string \<Rightarrow> error + datetime" where
  "strptime date_str =
    (case strptime_match date_str of
       [] \<Rightarrow> Inl ValueError
     | ((y, m, d, hh, mi, ss), rest) # _ \<Rightarrow>
         if rest \<noteq> [] then Inl ValueError
         else if check_date_fields (int_of_str y) (int_of_str m) (int_of_str d)
               \<and> check_time_fields (int_of_str hh) (int_of_str mi) (int_of_str ss)
         then Inr \<lparr>year = int_of_str y, month = int_of_str m, day = int_of_str d,
                   hour = int_of_str hh, minute = int_of_str mi, second = int_of_str ss,
                   microsecond = 0\<rparr>
         else Inl ValueError)"

subsection \<open>The functions of the program\<close>

text \<open>
  \<^verbatim>\<open>datetime.fromtimestamp(timestamp_ms / 1000, pytz.utc)\<close> for an integer number of
  milliseconds. The float quotient is idealised as the exact one: the seconds are its
  floor, the rest are the microseconds.
\<close>

definition fromtimestamp_ms :: "int \<Rightarrow> error + datetime" where
  "fromtimestamp_ms timestamp_ms =
    (let secs = timestamp_ms div 1000;
         ord = secs div 86400 + 719163;
         rem = secs mod 86400
     in if ord < 1 \<or> MAXORDINAL < ord then Inl ValueError
        else case ord2ymd ord of
          (y, m, d) \<Rightarrow>
            Inr \<lparr>year = y, month = m, day = d,
                 hour = rem div 3600, minute = rem mod 3600 div 60, second = rem mod 60,
                 microsecond = (timestamp_ms mod 1000) * 1000\<rparr>)"

definition convert_timestamp :: "bool \<Rightarrow> int \<Rightarrow> error + string" where
  "convert_timestamp zero_fill timestamp_ms =
    (case fromtimestamp_ms timestamp_ms of
       Inl e \<Rightarrow> Inl e
     | Inr dt \<Rightarrow> Inr (strftime zero_fill dt))"

text \<open>
  \<^verbatim>\<open>parse_datetime\<close> catches ValueError, the only exception \<open>strptime\<close> raises on a
  string, and returns \<^verbatim>\<open>None\<close> for it.
\<close>

definition parse_datetime :: "string \<Rightarrow> datetime option" where
  "parse_datetime date_str =
    (case strptime date_str of
       Inr dt \<Rightarrow> Some dt
     | Inl e \<Rightarrow> None)"

text \<open>
  The upstream payload: items with readings, readings with interval reads, each with an
  interval object and a metrics object. A key of a JSON object is absent, holds
  \<^verbatim>\<open>null\<close>, or holds a value; \<^verbatim>\<open>.get(key, default)\<close> returns the default only for an
  absent key. The start of an interval is an integer of epoch milliseconds and a total
  is a number.
\<close>

datatype 'a field = Absent | Null | Present 'a

record interval_obj =
  i_start :: "int field"

record metrics_obj =
  m_total :: "pynum field"

record read =
  interval :: "interval_obj field"
  metrics :: "metrics_obj field"

record reading =
  reads :: "read list field"

record item =
  readings :: "reading list field"

text \<open>A row of the output, as \<^verbatim>\<open>process_data\<close> builds it and the snapshot file holds it.\<close>

record entry =
  start_time :: string
  total :: pynum
  price :: pynum

text \<open>
  \<^verbatim>\<open>read.get('interval', {}).get('start', 0)\<close> as \<^verbatim>\<open>convert_timestamp\<close> divides it:
  \<^verbatim>\<open>.get\<close> on a null interval raises AttributeError, a null start is \<^verbatim>\<open>None\<close> and its
  division raises TypeError.
\<close>

definition get_start :: "read \<Rightarrow> error + int" where
  "get_start r =
    (case interval r of
       Null \<Rightarrow> Inl AttributeError
     | Absent \<Rightarrow> Inr 0
     | Present i \<Rightarrow>
         (case i_start i of Absent \<Rightarrow> Inr 0 | Null \<Rightarrow> Inl TypeError | Present t \<Rightarrow> Inr t))"

text \<open>\<^verbatim>\<open>read.get('metrics', {}).get('total', 0.0) or 0.0\<close>.\<close>

definition get_total :: "read \<Rightarrow> error + pynum" where
  "get_total r =
    (case metrics r of
       Null \<Rightarrow> Inl AttributeError
     | Absent \<Rightarrow> Inr (PFloat (Finite False 0))
     | Present m \<Rightarrow>
         (case m_total m of
            Absent \<Rightarrow> Inr (PFloat (Finite False 0))
          | Null \<Rightarrow> Inr (PFloat (Finite False 0))
          | Present x \<Rightarrow> Inr (if truthy x then x else PFloat (Finite False 0))))"

text \<open>
  The body of the innermost loop, in the order in which its statements can raise: the
  start, its conversion, the total, the product.
\<close>

definition process_read :: "bool \<Rightarrow> pynum \<Rightarrow> read \<Rightarrow> error + entry" where
  "process_read zero_fill price_per_kw r =
    (case get_start r of
       Inl e \<Rightarrow> Inl e
     | Inr start_time' \<Rightarrow>
         (case convert_timestamp zero_fill start_time' of
            Inl e \<Rightarrow> Inl e
          | Inr start_time_formatted \<Rightarrow>
              (case get_total r of
                 Inl e \<Rightarrow> Inl e
               | Inr total' \<Rightarrow>
                   (case py_mul total' price_per_kw of
                      Inl e \<Rightarrow> Inl e
                    | Inr price' \<Rightarrow>
                        Inr \<lparr>start_time = start_time_formatted, total = total',
                             price = price'\<rparr>))))"

text \<open>\<^verbatim>\<open>for x in obj.get(key, [])\<close>: a null list cannot be iterated.\<close>

definition get_list :: "'a list field \<Rightarrow> error + 'a list" where
  "get_list l = (case l of Absent \<Rightarrow> Inr [] | Null \<Rightarrow> Inl TypeError | Present xs \<Rightarrow> Inr xs)"

text \<open>The three nested loops, each appending to \<open>output\<close>; an exception ends them all.\<close>

fun process_reads :: "bool \<Rightarrow> pynum \<Rightarrow> read list \<Rightarrow> entry list \<Rightarrow> error + entry list" where
  "process_reads zero_fill price_per_kw [] output = Inr output"
| "process_reads zero_fill price_per_kw (r # rs) output =
    (case process_read zero_fill price_per_kw r of
       Inl e \<Rightarrow> Inl e
     | Inr row \<Rightarrow> process_reads zero_fill price_per_kw rs (output @ [row]))"

fun process_readings ::
  "bool \<Rightarrow> pynum \<Rightarrow> reading list \<Rightarrow> entry list \<Rightarrow> error + entry list" where
  "process_readings zero_fill price_per_kw [] output = Inr output"
| "process_readings zero_fill price_per_kw (rd # rds) output =
    (case get_list (reads rd) of
       Inl e \<Rightarrow> Inl e
     | Inr rs \<Rightarrow>
         (case process_reads zero_fill price_per_kw rs output of
            Inl e \<Rightarrow> Inl e
          | Inr output' \<Rightarrow> process_readings zero_fill price_per_kw rds output'))"

fun process_items :: "bool \<Rightarrow> pynum \<Rightarrow> item list \<Rightarrow> entry list \<Rightarrow> error + entry list" where
  "process_items zero_fill price_per_kw [] output = Inr output"
| "process_items zero_fill price_per_kw (it # its) output =
    (case get_list (readings it) of
       Inl e \<Rightarrow> Inl e
     | Inr rds \<Rightarrow>
         (case process_readings zero_fill price_per_kw rds output of
            Inl e \<Rightarrow> Inl e
          | Inr output' \<Rightarrow> process_items zero_fill price_per_kw its output'))"

definition process_data :: "bool \<Rightarrow> item list \<Rightarrow> pynum \<Rightarrow> error + entry list" where
  "process_data zero_fill data price_per_kw = process_items zero_fill price_per_kw data []"

subsection \<open>The snapshot store\<close>

text \<open>
  A Python \<^verbatim>\<open>dict\<close> keeps its keys in insertion order: assigning to a key that is
  present replaces the value in place, a new key goes to the end.
\<close>

type_synonym pydict = "(string \<times> entry) list"

fun dict_set :: "pydict \<Rightarrow> string \<Rightarrow> entry \<Rightarrow> pydict" where
  "dict_set [] k v = [(k, v)]"
| "dict_set ((k', v') # d) k v =
    (if k' = k then (k', v) # d else (k', v') # dict_set d k v)"

definition dict_values :: "pydict \<Rightarrow> entry list" where
  "dict_values d = map snd d"

text \<open>
  Both the dict comprehension over \<open>existing_data\<close> and the loop over \<open>data\<close> assign
  \<^verbatim>\<open>d[entry['Start Time']] = entry\<close> for each entry in order.
\<close>

definition assign_all :: "pydict \<Rightarrow> entry list \<Rightarrow> pydict" where
  "assign_all d es = foldl (\<lambda>d e. dict_set d (start_time e) e) d es"

text \<open>
  The content of the output file before the run, by what \<^verbatim>\<open>open\<close> and \<^verbatim>\<open>json.load\<close>
  do with it: the file is absent (FileNotFoundError), its bytes are not text in the
  encoding (UnicodeDecodeError), its text is not JSON (JSONDecodeError), its text nests
  deeper than the recursion limit (RecursionError), or it is a JSON list of entries.
  A JSON value of another shape is not modelled.
\<close>

datatype snapshot_file =
  FileNotFound | FileNotText | FileNotJSON | FileTooDeep | FileJSON "entry list"

text \<open>
  The \<^verbatim>\<open>try\<close> block catches FileNotFoundError and JSONDecodeError only: the other two
  exceptions leave \<^verbatim>\<open>save_to_json\<close>.
\<close>

definition load_error :: "snapshot_file \<Rightarrow> error option" where
  "load_error f =
    (case f of
       FileNotText \<Rightarrow> Some UnicodeDecodeError
     | FileTooDeep \<Rightarrow> Some RecursionError
     | FileNotFound \<Rightarrow> None
     | FileNotJSON \<Rightarrow> None
     | FileJSON es \<Rightarrow> None)"

text \<open>
  \<open>existing_data\<close> when no exception leaves the \<^verbatim>\<open>try\<close> block: the list read, or the
  empty list of the \<^verbatim>\<open>except\<close> clause. (For the two contents of \<open>load_error\<close> there is
  no \<open>existing_data\<close>, and \<^verbatim>\<open>save_to_json\<close> does not get this far.)
\<close>

definition load_existing :: "snapshot_file \<Rightarrow> entry list" where
  "load_existing f =
    (case f of
       FileJSON es \<Rightarrow> es
     | FileNotFound \<Rightarrow> []
     | FileNotJSON \<Rightarrow> []
     | FileNotText \<Rightarrow> []
     | FileTooDeep \<Rightarrow> [])"

text \<open>
  The list comprehension that filters by the cutoff. \<^verbatim>\<open>parse_datetime\<close> returns
  \<^verbatim>\<open>None\<close> for a string it cannot parse, and \<^verbatim>\<open>None >= retention_cutoff\<close> raises
  TypeError.
\<close>

fun filter_retained :: "datetime \<Rightarrow> entry list \<Rightarrow> error + entry list" where
  "filter_retained retention_cutoff [] = Inr []"
| "filter_retained retention_cutoff (e # es) =
    (case parse_datetime (start_time e) of
       None \<Rightarrow> Inl TypeError
     | Some t \<Rightarrow>
         (case filter_retained retention_cutoff es of
            Inl err \<Rightarrow> Inl err
          | Inr kept \<Rightarrow> Inr (if dt_le retention_cutoff t then e # kept else kept)))"

text \<open>
  \<^verbatim>\<open>save_to_json(data, output_file, retain_days)\<close>, with the clock reading
  \<open>current_time\<close> and the content of the output file explicit. It returns the outcome and
  the content of the file afterwards: every exception is raised before the file is opened
  for writing, so it leaves the file as it was.
\<close>

definition save_to_json ::
  "entry list \<Rightarrow> snapshot_file \<Rightarrow> int \<Rightarrow> datetime \<Rightarrow> (error + unit) \<times> snapshot_file" where
  "save_to_json data output_file retain_days current_time =
    (case load_error output_file of
       Some e \<Rightarrow> (Inl e, output_file)
     | None \<Rightarrow>
        let existing_data = load_existing output_file
        in case sub_days current_time retain_days of
             Inl e \<Rightarrow> (Inl e, output_file)
           | Inr retention_cutoff \<Rightarrow>
               let existing_data_dict = assign_all [] existing_data;
                   existing_data_dict = assign_all existing_data_dict data
               in case filter_retained retention_cutoff (dict_values existing_data_dict) of
                    Inl e \<Rightarrow> (Inl e, output_file)
                  | Inr filtered_data \<Rightarrow> (Inr (), FileJSON filtered_data))"

subsection \<open>Notions used in the statements\<close>

text \<open>
  The dictionary \<open>existing_data_dict\<close> of \<^verbatim>\<open>save_to_json\<close> after its loop over
  \<open>data\<close>: the snapshot's entries assigned first, the incoming ones after them.
\<close>

definition merged :: "snapshot_file \<Rightarrow> entry list \<Rightarrow> pydict" where
  "merged f data = assign_all (assign_all [] (load_existing f)) data"




text \<open>
  The epoch milliseconds whose second lies in the range of \<^verbatim>\<open>datetime\<close>:
  0001-01-01 00:00:00 to 9999-12-31 23:59:59.999 UTC.
\<close>

definition ts_in_range :: "int \<Rightarrow> bool" where
  "ts_in_range t = (- 62135596800000 \<le> t \<and> t \<le> 253402300799999)"

text \<open>
  The POSIX timestamp of a UTC datetime in whole seconds, as \<^verbatim>\<open>datetime.timestamp\<close>
  computes it: the days since 1970-01-01 (ordinal 719163) and the time of day.
\<close>

definition timestamp_s :: "datetime \<Rightarrow> int" where
  "timestamp_s dt =
    (ymd2ord (year dt) (month dt) (day dt) - 719163) * 86400
    + hour dt * 3600 + minute dt * 60 + second dt"

text \<open>The condition of the filter, on a key: the key parses and is not before the cutoff.\<close>

definition retained :: "datetime \<Rightarrow> string \<Rightarrow> bool" where
  "retained c k = (case parse_datetime k of None \<Rightarrow> False | Some t \<Rightarrow> dt_le c t)"

text \<open>Every value of the dictionary is stored under its own \<^verbatim>\<open>'Start Time'\<close>.\<close>

definition key_ok :: "pydict \<Rightarrow> bool" where
  "key_ok d = list_all (\<lambda>(k, v). start_time v = k) d"

text \<open>The distinct elements of a list, in the order of their first occurrence.\<close>

fun first_occurrences :: "'a list \<Rightarrow> 'a list" where
  "first_occurrences [] = []"
| "first_occurrences (x # xs) = x # filter (\<lambda>y. y \<noteq> x) (first_occurrences xs)"

text \<open>Two keys in ascending order of their timestamps (both must parse).\<close>

definition ts_le :: "string \<Rightarrow> string \<Rightarrow> bool" where
  "ts_le a b =
    (case parse_datetime a of
       None \<Rightarrow> False
     | Some s \<Rightarrow> (case parse_datetime b of None \<Rightarrow> False | Some t \<Rightarrow> dt_le s t))"

section \<open>Properties of the snapshot store\<close>

subsection \<open>Dictionary assignment\<close>

lemma assign_all_Nil: "assign_all d [] = d"
  by (simp add: assign_all_def)

lemma assign_all_Cons: "assign_all d (e # es) = assign_all (dict_set d (start_time e) e) es"
  by (simp add: assign_all_def)

lemma assign_all_snoc: "assign_all d (es @ [e]) = dict_set (assign_all d es) (start_time e) e"
  by (simp add: assign_all_def)

lemma assign_all_append: "assign_all d (xs @ ys) = assign_all (assign_all d xs) ys"
  by (simp add: assign_all_def)

lemma map_of_dict_set: "map_of (dict_set d k v) = (map_of d)(k \<mapsto> v)"
  by (induction d k v rule: dict_set.induct) auto

lemma keys_dict_set:
  "map fst (dict_set d k v) = (if k \<in> fst ` set d then map fst d else map fst d @ [k])"
  by (induction d k v rule: dict_set.induct) auto

lemma distinct_dict_set: "distinct (map fst d) \<Longrightarrow> distinct (map fst (dict_set d k v))"
  by (simp add: keys_dict_set)

lemma distinct_assign_all: "distinct (map fst d) \<Longrightarrow> distinct (map fst (assign_all d es))"
  by (induction es arbitrary: d) (simp_all add: assign_all_Nil assign_all_Cons distinct_dict_set)

lemma key_ok_dict_set: "key_ok d \<Longrightarrow> key_ok (dict_set d (start_time e) e)"
  by (induction d "start_time e" e rule: dict_set.induct) (auto simp: key_ok_def)

lemma key_ok_assign_all: "key_ok d \<Longrightarrow> key_ok (assign_all d es)"
  by (induction es arbitrary: d) (simp_all add: assign_all_Nil assign_all_Cons key_ok_dict_set)

lemma map_of_assign_all:
  "map_of (assign_all d es) = map_of d ++ map_of (rev (map (\<lambda>e. (start_time e, e)) es))"
proof (induction es rule: rev_induct)
  case Nil
  show ?case by (simp add: assign_all_Nil)
next
  case (snoc e es)
  show ?case by (auto simp add: assign_all_snoc map_of_dict_set snoc.IH fun_eq_iff map_add_def)
qed






lemma keys_set_dict_set: "fst ` set (dict_set d k v) = insert k (fst ` set d)"
proof -
  have "set (map fst (dict_set d k v)) = insert k (set (map fst d))"
    unfolding keys_dict_set by auto
  then show ?thesis by simp
qed

lemma keys_assign_all_set: "fst ` set (assign_all d es) = fst ` set d \<union> start_time ` set es"
  by (induction es rule: rev_induct) (auto simp add: assign_all_Nil assign_all_snoc keys_set_dict_set)


lemma filter_retained_ok:
  "\<forall>e \<in> set es. parse_datetime (start_time e) \<noteq> None \<Longrightarrow>
   filter_retained c es = Inr (filter (\<lambda>e. retained c (start_time e)) es)"
  by (induction es) (auto simp: retained_def)

lemma filter_retained_bad:
  "\<exists>e \<in> set es. parse_datetime (start_time e) = None \<Longrightarrow> filter_retained c es = Inl TypeError"
proof (induction es)
  case Nil
  then show ?case by simp
next
  case (Cons a es)
  show ?case
  proof (cases "parse_datetime (start_time a)")
    case None
    then show ?thesis by simp
  next
    case (Some t)
    with Cons.prems have "\<exists>e \<in> set es. parse_datetime (start_time e) = None" by auto
    from Cons.IH [OF this] Some show ?thesis by simp
  qed
qed


lemma key_ok_filter: "key_ok d \<Longrightarrow> key_ok (filter Q d)"
  by (induction d) (auto simp: key_ok_def)

lemma values_start_time: "key_ok d \<Longrightarrow> map start_time (dict_values d) = map fst d"
  by (induction d) (auto simp: key_ok_def dict_values_def)

subsection \<open>The merged dictionary and the written list\<close>

lemma set_first_occurrences: "set (first_occurrences xs) = set xs"
  by (induction xs) auto

lemma first_occurrences_snoc:
  "first_occurrences (xs @ [k]) =
     (if k \<in> set xs then first_occurrences xs else first_occurrences xs @ [k])"
  by (induction xs) auto

lemma keys_assign_all_empty: "map fst (assign_all [] es) = first_occurrences (map start_time es)"
proof (induction es rule: rev_induct)
  case Nil
  show ?case by (simp add: assign_all_Nil)
next
  case (snoc e es)
  have "fst ` set (assign_all [] es) = start_time ` set es"
    by (simp add: keys_assign_all_set)
  then show ?case
    by (simp add: assign_all_snoc keys_dict_set snoc.IH first_occurrences_snoc)
qed

lemma merged_eq: "merged f data = assign_all [] (load_existing f @ data)"
  by (simp add: merged_def assign_all_append)

lemma distinct_merged: "distinct (map fst (merged f data))"
  by (simp add: merged_eq distinct_assign_all)

lemma key_ok_merged: "key_ok (merged f data)"
  unfolding merged_eq by (rule key_ok_assign_all) (simp add: key_ok_def)

lemma keys_merged: "map fst (merged f data) = first_occurrences (map start_time (load_existing f @ data))"
  by (simp only: merged_eq keys_assign_all_empty)

lemma start_times_merged:
  "start_time ` set (dict_values (merged f data)) = start_time ` set (load_existing f @ data)"
proof -
  have "set (map start_time (dict_values (merged f data))) = set (map fst (merged f data))"
    by (simp only: values_start_time [OF key_ok_merged])
  also have "\<dots> = set (map start_time (load_existing f @ data))"
    by (simp only: keys_merged set_first_occurrences)
  finally show ?thesis by (simp add: image_Un)
qed

lemma save_to_json_unfold:
  "save_to_json data f retain_days now =
    (case load_error f of
       Some e \<Rightarrow> (Inl e, f)
     | None \<Rightarrow>
        (case sub_days now retain_days of
           Inl e \<Rightarrow> (Inl e, f)
         | Inr c \<Rightarrow>
            (case filter_retained c (dict_values (merged f data)) of
               Inl e \<Rightarrow> (Inl e, f)
             | Inr out \<Rightarrow> (Inr (), FileJSON out))))"
  by (simp add: save_to_json_def merged_def Let_def split: sum.splits option.splits)

lemma filter_retained_cases:
  "filter_retained c es =
    (if list_all (\<lambda>e. parse_datetime (start_time e) \<noteq> None) es
     then Inr (filter (\<lambda>e. retained c (start_time e)) es) else Inl TypeError)"
proof (cases "\<forall>e \<in> set es. parse_datetime (start_time e) \<noteq> None")
  case True
  then show ?thesis by (simp add: filter_retained_ok list_all_iff)
next
  case False
  then have "\<exists>e \<in> set es. parse_datetime (start_time e) = None" by simp
  from filter_retained_bad [OF this] False show ?thesis by (simp add: list_all_iff)
qed

lemma parse_ok_merged:
  "(\<forall>e \<in> set (dict_values (merged f data)). parse_datetime (start_time e) \<noteq> None) =
   (\<forall>e \<in> set (load_existing f @ data). parse_datetime (start_time e) \<noteq> None)"
proof -
  have "(\<forall>e \<in> set (dict_values (merged f data)). parse_datetime (start_time e) \<noteq> None) =
        (\<forall>k \<in> start_time ` set (dict_values (merged f data)). parse_datetime k \<noteq> None)"
    by blast
  also have "\<dots> = (\<forall>k \<in> start_time ` set (load_existing f @ data). parse_datetime k \<noteq> None)"
    by (simp only: start_times_merged)
  also have "\<dots> = (\<forall>e \<in> set (load_existing f @ data). parse_datetime (start_time e) \<noteq> None)"
    by blast
  finally show ?thesis .
qed



lemma map_of_rev_last:
  "map_of (rev (map (\<lambda>e. (start_time e, e)) es)) k =
     (if k \<in> start_time ` set es then Some (last (filter (\<lambda>x. start_time x = k) es)) else None)"
  by (induction es rule: rev_induct) auto

lemma map_of_assign_all_in:
  "e \<in> set es \<Longrightarrow>
   map_of (assign_all d es) (start_time e) = Some (last (filter (\<lambda>x. start_time x = start_time e) es))"
  by (simp add: map_of_assign_all map_add_def map_of_rev_last)

lemma filter_retained_subset: "filter_retained c es = Inr out \<Longrightarrow> set out \<subseteq> set es"
  by (auto simp: filter_retained_cases split: if_splits)

lemma save_to_json_written:
  assumes "save_to_json data f retain_days now = (Inr (), FileJSON out)"
  shows "\<exists>c. sub_days now retain_days = Inr c \<and>
       out = filter (\<lambda>e. retained c (start_time e)) (dict_values (merged f data)) \<and>
       (\<forall>e \<in> set (load_existing f @ data). parse_datetime (start_time e) \<noteq> None) \<and>
       load_error f = None"
proof -
  from assms obtain c where le: "load_error f = None"
    and c: "sub_days now retain_days = Inr c"
    and fr: "filter_retained c (dict_values (merged f data)) = Inr out"
    by (auto simp: save_to_json_unfold split: sum.splits option.splits)
  from fr have all: "\<forall>e \<in> set (dict_values (merged f data)). parse_datetime (start_time e) \<noteq> None"
    and out: "out = filter (\<lambda>e. retained c (start_time e)) (dict_values (merged f data))"
    by (auto simp: filter_retained_cases list_all_iff split: if_splits)
  from all have "\<forall>e \<in> set (load_existing f @ data). parse_datetime (start_time e) \<noteq> None"
    by (simp only: parse_ok_merged)
  with le c out show ?thesis by blast
qed

lemma values_merged_lookup:
  "x \<in> set (dict_values (merged f data)) \<Longrightarrow> map_of (merged f data) (start_time x) = Some x"
proof -
  assume "x \<in> set (dict_values (merged f data))"
  then obtain k where kx: "(k, x) \<in> set (merged f data)"
    by (auto simp: dict_values_def)
  with key_ok_merged [of f data] have "start_time x = k"
    by (auto simp: key_ok_def list_all_iff)
  with kx distinct_merged [of f data] show ?thesis by simp
qed

lemma assign_all_inj_set:
  assumes inj: "inj_on start_time (set es)"
  shows "map_of (rev (map (\<lambda>e. (start_time e, e)) es)) k =
          (if k \<in> start_time ` set es then Some (the_inv_into (set es) start_time k) else None)"
proof (cases "k \<in> start_time ` set es")
  case False
  then show ?thesis by (simp add: map_of_rev_last)
next
  case True
  then have ne: "filter (\<lambda>x. start_time x = k) es \<noteq> []"
    by (auto simp: filter_empty_conv)
  then have "last (filter (\<lambda>x. start_time x = k) es) \<in> set (filter (\<lambda>x. start_time x = k) es)"
    by (rule last_in_set)
  then have "last (filter (\<lambda>x. start_time x = k) es) \<in> set es"
    and "start_time (last (filter (\<lambda>x. start_time x = k) es)) = k" by auto
  then have "the_inv_into (set es) start_time k = last (filter (\<lambda>x. start_time x = k) es)"
    using inj by (metis the_inv_into_f_f)
  with True show ?thesis by (simp add: map_of_rev_last)
qed


section \<open>Properties of the calendar and of the timestamp text\<close>

subsection \<open>Ordinals and dates\<close>

lemma nth_tabs:
  "DAYS_BEFORE_MONTH ! 0 = -1" "DAYS_BEFORE_MONTH ! 1 = 0" "DAYS_BEFORE_MONTH ! 2 = 31"
  "DAYS_BEFORE_MONTH ! 3 = 59" "DAYS_BEFORE_MONTH ! 4 = 90" "DAYS_BEFORE_MONTH ! 5 = 120"
  "DAYS_BEFORE_MONTH ! 6 = 151" "DAYS_BEFORE_MONTH ! 7 = 181" "DAYS_BEFORE_MONTH ! 8 = 212"
  "DAYS_BEFORE_MONTH ! 9 = 243" "DAYS_BEFORE_MONTH ! 10 = 273" "DAYS_BEFORE_MONTH ! 11 = 304"
  "DAYS_BEFORE_MONTH ! 12 = 334"
  "DAYS_IN_MONTH ! 0 = -1" "DAYS_IN_MONTH ! 1 = 31" "DAYS_IN_MONTH ! 2 = 28"
  "DAYS_IN_MONTH ! 3 = 31" "DAYS_IN_MONTH ! 4 = 30" "DAYS_IN_MONTH ! 5 = 31"
  "DAYS_IN_MONTH ! 6 = 30" "DAYS_IN_MONTH ! 7 = 31" "DAYS_IN_MONTH ! 8 = 31"
  "DAYS_IN_MONTH ! 9 = 30" "DAYS_IN_MONTH ! 10 = 31" "DAYS_IN_MONTH ! 11 = 30"
  "DAYS_IN_MONTH ! 12 = 31"
  "DAYS_BEFORE_MONTH ! Suc 0 = 0" "DAYS_IN_MONTH ! Suc 0 = 31"
  by (simp_all add: DAYS_BEFORE_MONTH_def DAYS_IN_MONTH_def)

lemma month_of_yday_est:
  assumes k: "(n + 50) div 32 = k"
  shows "month_of_yday L n =
    (if n < DAYS_BEFORE_MONTH ! nat k + (if 2 < k \<and> L then 1 else 0)
     then (k - 1, n - (DAYS_BEFORE_MONTH ! nat k + (if 2 < k \<and> L then 1 else 0)
                        - (DAYS_IN_MONTH ! nat (k - 1) + (if k - 1 = 2 \<and> L then 1 else 0))) + 1)
     else (k, n - (DAYS_BEFORE_MONTH ! nat k + (if 2 < k \<and> L then 1 else 0)) + 1))"
  by (simp add: month_of_yday_def Let_def k)

lemma month_of_yday_ok:
  assumes "0 \<le> n" "n \<le> (if L then 365 else 364)" "month_of_yday L n = (m, d)"
  shows "1 \<le> m \<and> m \<le> 12 \<and> 1 \<le> d
       \<and> d \<le> (if m = 2 \<and> L then 29 else DAYS_IN_MONTH ! nat m)
       \<and> DAYS_BEFORE_MONTH ! nat m + (if 2 < m \<and> L then 1 else 0) + d = n + 1"
proof -
  define k where "k = (n + 50) div 32"
  define r where "r = (n + 50) mod 32"
  have f: "n + 50 = k * 32 + r" "0 \<le> r" "r < 32"
    by (simp_all add: k_def r_def)
  have kd: "(n + 50) div 32 = k" by (simp add: k_def)
  note est = month_of_yday_est [OF kd, of L]
  from f assms(1,2) have "1 \<le> k" "k \<le> 12" by (auto split: if_splits)
  then have "k = 1 \<or> k = 2 \<or> k = 3 \<or> k = 4 \<or> k = 5 \<or> k = 6
    \<or> k = 7 \<or> k = 8 \<or> k = 9 \<or> k = 10 \<or> k = 11 \<or> k = 12"
    by presburger
  then consider "k = 1" | "k = 2" | "k = 3" | "k = 4" | "k = 5" | "k = 6"
    | "k = 7" | "k = 8" | "k = 9" | "k = 10" | "k = 11" | "k = 12"
    by blast
  then show ?thesis
  proof cases
    case 1
    with f assms est show ?thesis
      by (cases L; cases "n < DAYS_BEFORE_MONTH ! nat k + (if 2 < k \<and> L then 1 else 0)")
         (auto simp add: nth_tabs)
  next
    case 2
    with f assms est show ?thesis
      by (cases L; cases "n < DAYS_BEFORE_MONTH ! nat k + (if 2 < k \<and> L then 1 else 0)")
         (auto simp add: nth_tabs)
  next
    case 3
    with f assms est show ?thesis
      by (cases L; cases "n < DAYS_BEFORE_MONTH ! nat k + (if 2 < k \<and> L then 1 else 0)")
         (auto simp add: nth_tabs)
  next
    case 4
    with f assms est show ?thesis
      by (cases L; cases "n < DAYS_BEFORE_MONTH ! nat k + (if 2 < k \<and> L then 1 else 0)")
         (auto simp add: nth_tabs)
  next
    case 5
    with f assms est show ?thesis
      by (cases L; cases "n < DAYS_BEFORE_MONTH ! nat k + (if 2 < k \<and> L then 1 else 0)")
         (auto simp add: nth_tabs)
  next
    case 6
    with f assms est show ?thesis
      by (cases L; cases "n < DAYS_BEFORE_MONTH ! nat k + (if 2 < k \<and> L then 1 else 0)")
         (auto simp add: nth_tabs)
  next
    case 7
    with f assms est show ?thesis
      by (cases L; cases "n < DAYS_BEFORE_MONTH ! nat k + (if 2 < k \<and> L then 1 else 0)")
         (auto simp add: nth_tabs)
  next
    case 8
    with f assms est show ?thesis
      by (cases L; cases "n < DAYS_BEFORE_MONTH ! nat k + (if 2 < k \<and> L then 1 else 0)")
         (auto simp add: nth_tabs)
  next
    case 9
    with f assms est show ?thesis
      by (cases L; cases "n < DAYS_BEFORE_MONTH ! nat k + (if 2 < k \<and> L then 1 else 0)")
         (auto simp add: nth_tabs)
  next
    case 10
    with f assms est show ?thesis
      by (cases L; cases "n < DAYS_BEFORE_MONTH ! nat k + (if 2 < k \<and> L then 1 else 0)")
         (auto simp add: nth_tabs)
  next
    case 11
    with f assms est show ?thesis
      by (cases L; cases "n < DAYS_BEFORE_MONTH ! nat k + (if 2 < k \<and> L then 1 else 0)")
         (auto simp add: nth_tabs)
  next
    case 12
    with f assms est show ?thesis
      by (cases L; cases "n < DAYS_BEFORE_MONTH ! nat k + (if 2 < k \<and> L then 1 else 0)")
         (auto simp add: nth_tabs)
  qed
qed

lemma mod_zero_iff_top:
  fixes x :: int
  assumes "0 < x" "x \<le> m"
  shows "(x mod m = 0) = (x = m)"
proof (cases "x = m")
  case True
  then show ?thesis by simp
next
  case False
  with assms have "x mod m = x" by (intro mod_pos_pos_trivial) auto
  with assms False show ?thesis by simp
qed

lemma is_leap_cycles:
  assumes "0 \<le> e" "e \<le> 3" "0 \<le> c" "c \<le> 24" "0 \<le> b" "b \<le> 3"
  shows "is_leap (a * 400 + 1 + b * 100 + c * 4 + e) = (e = 3 \<and> (c \<noteq> 24 \<or> b = 3))"
proof -
  let ?y = "a * 400 + 1 + b * 100 + c * 4 + e"
  have "?y = (e + 1) + (a * 100 + b * 25 + c) * 4" by simp
  then have m4: "?y mod 4 = (e + 1) mod 4"
    by (simp only: mod_mult_self1)
  have "?y = (c * 4 + e + 1) + (a * 4 + b) * 100" by simp
  then have m100: "?y mod 100 = (c * 4 + e + 1) mod 100"
    by (simp only: mod_mult_self1)
  have "?y = (b * 100 + c * 4 + e + 1) + a * 400" by simp
  then have m400: "?y mod 400 = (b * 100 + c * 4 + e + 1) mod 400"
    by (simp only: mod_mult_self1)
  from assms have e4: "((e + 1) mod 4 = 0) = (e = 3)"
    by (subst mod_zero_iff_top) auto
  from assms have c100: "((c * 4 + e + 1) mod 100 = 0) = (c = 24 \<and> e = 3)"
    by (subst mod_zero_iff_top) auto
  from assms have b400: "((b * 100 + c * 4 + e + 1) mod 400 = 0) = (b = 3 \<and> c = 24 \<and> e = 3)"
    by (subst mod_zero_iff_top) auto
  show ?thesis
    unfolding is_leap_def m4 m100 m400 e4 c100 b400 by blast
qed

lemma days_before_year_cycles:
  assumes "0 \<le> e" "e \<le> 3" "0 \<le> c" "c \<le> 24" "0 \<le> b" "b \<le> 3"
  shows "days_before_year (a * 400 + 1 + b * 100 + c * 4 + e)
           = a * 146097 + b * 36524 + c * 1461 + e * 365"
proof -
  let ?z = "a * 400 + b * 100 + c * 4 + e"
  have d4: "?z div 4 = a * 100 + b * 25 + c"
    using assms by (intro int_div_pos_eq [where r = e]) auto
  have d100: "?z div 100 = a * 4 + b"
    using assms by (intro int_div_pos_eq [where r = "c * 4 + e"]) auto
  have d400: "?z div 400 = a"
    using assms by (intro int_div_pos_eq [where r = "b * 100 + c * 4 + e"]) auto
  have "a * 400 + 1 + b * 100 + c * 4 + e - 1 = ?z" by simp
  then show ?thesis
    unfolding days_before_year_def by (simp only: d4 d100 d400) simp
qed

lemma ord2ymd_cycles:
  "ord2ymd n =
    (let a = (n - 1) div 146097; r1 = (n - 1) mod 146097;
         b = r1 div 36524; r2 = r1 mod 36524;
         c = r2 div 1461; r3 = r2 mod 1461;
         e = r3 div 365; r4 = r3 mod 365;
         y = a * 400 + 1 + b * 100 + c * 4 + e
     in if e = 4 \<or> b = 4 then (y - 1, 12, 31)
        else case month_of_yday (e = 3 \<and> (c \<noteq> 24 \<or> b = 3)) r4 of (m, d) \<Rightarrow> (y, m, d))"
  by (simp add: ord2ymd_def Let_def)

lemma ord2ymd_correct:
  assumes n: "1 \<le> n" and res: "ord2ymd n = (y, m, d)"
  shows "ymd2ord y m d = n \<and> 1 \<le> y \<and> 1 \<le> m \<and> m \<le> 12 \<and> 1 \<le> d \<and> d \<le> days_in_month y m
       \<and> (n \<le> MAXORDINAL \<longrightarrow> y \<le> MAXYEAR) \<and> (364878 \<le> n \<longrightarrow> 1000 \<le> y)"
proof -
  define a where "a = (n - 1) div 146097"
  define r1 where "r1 = (n - 1) mod 146097"
  define b where "b = r1 div 36524"
  define r2 where "r2 = r1 mod 36524"
  define c where "c = r2 div 1461"
  define r3 where "r3 = r2 mod 1461"
  define e where "e = r3 div 365"
  define r4 where "r4 = r3 mod 365"
  have f1: "n - 1 = a * 146097 + r1" "0 \<le> r1" "r1 < 146097"
    by (simp_all add: a_def r1_def)
  have f2: "r1 = b * 36524 + r2" "0 \<le> r2" "r2 < 36524"
    by (simp_all add: b_def r2_def)
  have f3: "r2 = c * 1461 + r3" "0 \<le> r3" "r3 < 1461"
    by (simp_all add: c_def r3_def)
  have f4: "r3 = e * 365 + r4" "0 \<le> r4" "r4 < 365"
    by (simp_all add: e_def r4_def)
  from n f1 have a0: "0 \<le> a" by linarith
  from f1 f2 have b0: "0 \<le> b" "b \<le> 4" by linarith+
  from f2 f3 have c0: "0 \<le> c" "c \<le> 24" by linarith+
  from f3 f4 have e0: "0 \<le> e" "e \<le> 4" by linarith+
  have a24: "a \<le> 24" if "n \<le> MAXORDINAL"
    using that f1 unfolding MAXORDINAL_def by linarith
  note cyc = ord2ymd_cycles [of n, unfolded Let_def, folded a_def r1_def,
      folded b_def r2_def, folded c_def r3_def, folded e_def r4_def]
  consider (century) "b = 4" | (leapday) "b \<le> 3" "e = 4" | (normal) "b \<le> 3" "e \<le> 3"
    using b0 e0 by linarith
  then show ?thesis
  proof cases
    case century
    with f1 f2 f3 f4 c0 e0 have z: "r2 = 0" "c = 0" "e = 0" "r4 = 0" by linarith+
    from cyc res century z have ymd: "y = a * 400 + 1 + 3 * 100 + 24 * 4 + 3" "m = 12" "d = 31"
      by simp_all
    have leap: "is_leap y" unfolding ymd by (subst is_leap_cycles) auto
    have dby: "days_before_year y = a * 146097 + 3 * 36524 + 24 * 1461 + 3 * 365"
      unfolding ymd by (subst days_before_year_cycles) auto
    have "ymd2ord y m d = n"
      using f1 f2 century z leap dby
      by (simp add: ymd2ord_def days_before_month_def ymd(2,3) nth_tabs)
    moreover have "d \<le> days_in_month y m"
      by (simp add: days_in_month_def ymd(2,3) nth_tabs)
    moreover have "y \<le> MAXYEAR" if "n \<le> MAXORDINAL"
      using that f1 f2 century z a0 unfolding MAXORDINAL_def MAXYEAR_def ymd by linarith
    moreover have "1 \<le> y" using a0 unfolding ymd by linarith
    moreover have "1000 \<le> y" if "364878 \<le> n"
      using that f1 f2 century z a0 unfolding ymd by linarith
    ultimately show ?thesis by (simp add: ymd(2,3))
  next
    case leapday
    with f3 f4 have z: "r4 = 0" by linarith
    from leapday f2 f3 f4 z have c23: "c \<le> 23" by linarith
    from cyc res leapday have ymd: "y = a * 400 + 1 + b * 100 + c * 4 + 3" "m = 12" "d = 31"
      by simp_all
    have leap: "is_leap y"
      unfolding ymd using b0 leapday c0 c23 by (subst is_leap_cycles) auto
    have dby: "days_before_year y = a * 146097 + b * 36524 + c * 1461 + 3 * 365"
      unfolding ymd using b0 leapday c0 by (subst days_before_year_cycles) auto
    have "ymd2ord y m d = n"
      using f1 f2 f3 f4 leapday z leap dby
      by (simp add: ymd2ord_def days_before_month_def ymd(2,3) nth_tabs)
    moreover have "d \<le> days_in_month y m"
      by (simp add: days_in_month_def ymd(2,3) nth_tabs)
    moreover have "y \<le> MAXYEAR" if "n \<le> MAXORDINAL"
      using that a24 [OF that] f1 f2 f3 f4 leapday z b0 c0 c23
      unfolding MAXORDINAL_def MAXYEAR_def ymd by linarith
    moreover have "1 \<le> y" using a0 b0 c0 unfolding ymd by linarith
    moreover have "1000 \<le> y" if "364878 \<le> n"
      using that f1 f2 f3 f4 leapday z a0 b0 c0 c23 unfolding ymd by linarith
    ultimately show ?thesis by (simp add: ymd(2,3))
  next
    case normal
    define L where "L = (e = 3 \<and> (c \<noteq> 24 \<or> b = 3))"
    obtain m' d' where md: "month_of_yday L r4 = (m', d')" by (cases "month_of_yday L r4")
    from cyc res normal md have ymd: "y = a * 400 + 1 + b * 100 + c * 4 + e" "m = m'" "d = d'"
      by (auto simp: L_def)
    have leap: "is_leap y = L"
      unfolding ymd L_def using b0 normal c0 e0 by (subst is_leap_cycles) auto
    have dby: "days_before_year y = a * 146097 + b * 36524 + c * 1461 + e * 365"
      unfolding ymd using b0 normal c0 e0 by (subst days_before_year_cycles) auto
    from f4 have "r4 \<le> (if L then 365 else 364)" by simp
    from month_of_yday_ok [OF f4(2) this md]
    have mo: "1 \<le> m" "m \<le> 12" "1 \<le> d"
      "d \<le> (if m = 2 \<and> L then 29 else DAYS_IN_MONTH ! nat m)"
      "DAYS_BEFORE_MONTH ! nat m + (if 2 < m \<and> L then 1 else 0) + d = r4 + 1"
      unfolding ymd(2,3) by blast+
    have "ymd2ord y m d = n"
      using f1 f2 f3 f4 dby mo(5)
      by (simp add: ymd2ord_def days_before_month_def leap)
    moreover have "d \<le> days_in_month y m"
      using mo(4) by (simp add: days_in_month_def leap)
    moreover have "y \<le> MAXYEAR" if "n \<le> MAXORDINAL"
      using that a24 [OF that] f1 f2 f3 f4 normal b0 c0 e0
      unfolding MAXORDINAL_def MAXYEAR_def ymd by linarith
    moreover have "1 \<le> y" using a0 b0 c0 e0 unfolding ymd by linarith
    moreover have "1000 \<le> y" if "364878 \<le> n"
      using that f1 f2 f3 f4 normal a0 b0 c0 e0 unfolding ymd by linarith
    ultimately show ?thesis using mo(1-3) by simp
  qed
qed

subsection \<open>Formatting and matching decimal fields\<close>

lemma of_char_digit_char: "d < 10 \<Longrightarrow> (of_char (digit_char d) :: nat) = 48 + d"
  by (simp add: digit_char_def)

lemma is_digit_digit_char: "d < 10 \<Longrightarrow> is_digit (digit_char d)"
  by (simp add: is_digit_def of_char_digit_char)

lemma not_space_digit_char: "d < 10 \<Longrightarrow> \<not> is_space (digit_char d)"
  by (simp add: is_space_def of_char_digit_char Let_def)

lemma digit_val_digit_char: "d < 10 \<Longrightarrow> digit_val (digit_char d) = d"
  by (simp add: digit_val_def of_char_digit_char)

lemma in_range_digit_char:
  "d < 10 \<Longrightarrow> in_range lo hi (digit_char d) = ((of_char lo :: nat) \<le> 48 + d \<and> 48 + d \<le> (of_char hi :: nat))"
  by (simp add: in_range_def of_char_digit_char)

lemma digit_char_eq: "d < 10 \<Longrightarrow> (digit_char d = c) = ((of_char c :: nat) = 48 + d)"
proof -
  assume d: "d < 10"
  have "(digit_char d = c) = ((of_char (digit_char d) :: nat) = of_char c)"
    by simp
  also have "\<dots> = ((of_char c :: nat) = 48 + d)"
    using d by (auto simp: of_char_digit_char)
  finally show ?thesis .
qed

lemma dec_str_1: "n < 10 \<Longrightarrow> dec_str n = [digit_char n]"
  by (simp add: dec_str.simps)

lemma dec_str_2: "10 \<le> n \<Longrightarrow> n < 100 \<Longrightarrow> dec_str n = [digit_char (n div 10), digit_char (n mod 10)]"
proof -
  assume a: "10 \<le> n" "n < 100"
  then have "n div 10 < 10" by simp
  then have "dec_str (n div 10) = [digit_char (n div 10)]" by (rule dec_str_1)
  with a show ?thesis by (subst dec_str.simps) simp
qed

lemma dec_str_3:
  "100 \<le> n \<Longrightarrow> n < 1000 \<Longrightarrow>
   dec_str n = [digit_char (n div 100), digit_char (n div 10 mod 10), digit_char (n mod 10)]"
proof -
  assume a: "100 \<le> n" "n < 1000"
  then have "10 \<le> n div 10" "n div 10 < 100" by simp_all
  then have "dec_str (n div 10) = [digit_char (n div 10 div 10), digit_char (n div 10 mod 10)]"
    by (rule dec_str_2)
  moreover have "n div 10 div 10 = n div 100" by (simp add: div_mult2_eq [symmetric])
  ultimately show ?thesis using a by (subst dec_str.simps) simp
qed

lemma dec_str_4:
  "1000 \<le> n \<Longrightarrow> n < 10000 \<Longrightarrow>
   dec_str n = [digit_char (n div 1000), digit_char (n div 100 mod 10),
                digit_char (n div 10 mod 10), digit_char (n mod 10)]"
proof -
  assume a: "1000 \<le> n" "n < 10000"
  then have "100 \<le> n div 10" "n div 10 < 1000" by simp_all
  then have "dec_str (n div 10) = [digit_char (n div 10 div 100), digit_char (n div 10 div 10 mod 10), digit_char (n div 10 mod 10)]"
    by (rule dec_str_3)
  moreover have "n div 10 div 100 = n div 1000" "n div 10 div 10 = n div 100"
    by (simp_all add: div_mult2_eq [symmetric])
  ultimately show ?thesis using a by (subst dec_str.simps) simp
qed

lemma digit_char_0: "digit_char 0 = CHR ''0''"
  by code_simp

lemma zfill2: "n < 100 \<Longrightarrow> zfill 2 (dec_str n) = [digit_char (n div 10), digit_char (n mod 10)]"
  by (cases "n < 10") (simp_all add: zfill_def dec_str_1 dec_str_2 digit_char_0)

lemma zfill4:
  "n < 10000 \<Longrightarrow>
   zfill 4 (dec_str n) = [digit_char (n div 1000), digit_char (n div 100 mod 10),
                          digit_char (n div 10 mod 10), digit_char (n mod 10)]"
proof -
  assume n: "n < 10000"
  have r: "replicate 3 (CHR ''0'') = ''000''" "replicate 2 (CHR ''0'') = ''00''"
    by (simp_all add: numeral_eq_Suc)
  consider "n < 10" | "10 \<le> n" "n < 100" | "100 \<le> n" "n < 1000" | "1000 \<le> n" by linarith
  then show ?thesis
  proof cases
    case 1 then show ?thesis by (simp add: zfill_def dec_str_1 digit_char_0 r)
  next
    case 2 then show ?thesis by (simp add: zfill_def dec_str_2 digit_char_0 r)
  next
    case 3 then show ?thesis by (simp add: zfill_def dec_str_3 digit_char_0)
  next
    case 4 with n show ?thesis by (simp add: zfill_def dec_str_4)
  qed
qed

lemma rx_class_Cons: "rx_class P (c # r) = (if P c then [([c], r)] else [])"
  by (simp add: rx_class_def)

lemma rx_class_Nil: "rx_class P [] = []"
  by (simp add: rx_class_def)

lemma rx_Y_digits:
  assumes "a < 10" "b < 10" "c < 10" "d < 10"
  shows "rx_Y (digit_char a # digit_char b # digit_char c # digit_char d # r)
           = [([digit_char a, digit_char b, digit_char c, digit_char d], r)]"
  using assms
  by (simp add: rx_Y_def rx_seq_def rx_digit_def rx_class_Cons is_digit_digit_char)

lemma rx_chr_same: "rx_chr c (c # r) = [([c], r)]"
  by (simp add: rx_chr_def rx_class_Cons)

lemma rx_spaces_one:
  assumes "d < 10"
  shows "rx_spaces (CHR '' '' # digit_char d # r) = [('' '', digit_char d # r)]"
proof -
  have "is_space (CHR '' '')" by (simp add: is_space_def Let_def)
  with assms show ?thesis by (simp add: not_space_digit_char)
qed

lemmas rx_unfold = rx_alt_def rx_seq_def rx_chr_def rx_digit_def rx_class_Cons
  is_digit_digit_char in_range_digit_char digit_char_eq

lemma rx_m_digits:
  assumes "a < 10" "b < 10" "1 \<le> 10 * a + b" "10 * a + b \<le> 12"
  shows "\<exists>ps. rx_m (digit_char a # digit_char b # r) = ([digit_char a, digit_char b], r) # ps"
proof -
  from assms have "a = 1 \<and> b \<le> 2 \<or> a = 0 \<and> 1 \<le> b" by linarith
  with assms show ?thesis
    by (auto simp add: rx_m_def rx_unfold)
qed

lemma rx_d_digits:
  assumes "a < 10" "b < 10" "1 \<le> 10 * a + b" "10 * a + b \<le> 31"
  shows "\<exists>ps. rx_d (digit_char a # digit_char b # r) = ([digit_char a, digit_char b], r) # ps"
proof -
  from assms have "a = 3 \<and> b \<le> 1 \<or> (a = 1 \<or> a = 2) \<or> a = 0 \<and> 1 \<le> b" by linarith
  with assms show ?thesis
    by (auto simp add: rx_d_def rx_unfold)
qed

lemma rx_H_digits:
  assumes "a < 10" "b < 10" "10 * a + b \<le> 23"
  shows "\<exists>ps. rx_H (digit_char a # digit_char b # r) = ([digit_char a, digit_char b], r) # ps"
proof -
  from assms have "a = 2 \<and> b \<le> 3 \<or> a \<le> 1" by linarith
  with assms show ?thesis
    by (auto simp add: rx_H_def rx_unfold)
qed

lemma rx_M_digits:
  assumes "a < 10" "b < 10" "10 * a + b \<le> 59"
  shows "\<exists>ps. rx_M (digit_char a # digit_char b # r) = ([digit_char a, digit_char b], r) # ps"
proof -
  from assms have "a \<le> 5" by linarith
  with assms show ?thesis
    by (auto simp add: rx_M_def rx_unfold)
qed

lemma rx_S_digits:
  assumes "a < 10" "b < 10" "10 * a + b \<le> 59"
  shows "\<exists>ps. rx_S (digit_char a # digit_char b # r) = ([digit_char a, digit_char b], r) # ps"
proof -
  from assms have "a \<le> 5" by linarith
  with assms show ?thesis
    by (auto simp add: rx_S_def rx_unfold)
qed

lemma int_of_str_2:
  "a < 10 \<Longrightarrow> b < 10 \<Longrightarrow> int_of_str [digit_char a, digit_char b] = int (10 * a + b)"
  by (simp add: int_of_str_def not_space_digit_char digit_val_digit_char)

lemma int_of_str_4:
  "a < 10 \<Longrightarrow> b < 10 \<Longrightarrow> c < 10 \<Longrightarrow> d < 10 \<Longrightarrow>
   int_of_str [digit_char a, digit_char b, digit_char c, digit_char d]
     = int (1000 * a + 100 * b + 10 * c + d)"
  by (simp add: int_of_str_def not_space_digit_char digit_val_digit_char)

lemma digits4:
  fixes n :: nat
  shows "1000 * (n div 1000) + 100 * (n div 100 mod 10) + 10 * (n div 10 mod 10) + n mod 10 = n"
proof -
  have a: "n div 100 = 10 * (n div 1000) + n div 100 mod 10"
    using div_mult_mod_eq [of "n div 100" 10] by (simp add: div_mult2_eq [symmetric])
  have b: "n div 10 = 10 * (n div 100) + n div 10 mod 10"
    using div_mult_mod_eq [of "n div 10" 10] by (simp add: div_mult2_eq [symmetric])
  have c: "n = 10 * (n div 10) + n mod 10"
    by simp
  from a b c show ?thesis by linarith
qed

lemma digits2:
  fixes n :: nat
  shows "10 * (n div 10) + n mod 10 = n"
  by simp

lemma strptime_match_formatted:
  assumes y: "y1 < 10" "y2 < 10" "y3 < 10" "y4 < 10"
    and m: "m1 < 10" "m2 < 10" "1 \<le> 10 * m1 + m2" "10 * m1 + m2 \<le> 12"
    and d: "d1 < 10" "d2 < 10" "1 \<le> 10 * d1 + d2" "10 * d1 + d2 \<le> 31"
    and h: "h1 < 10" "h2 < 10" "10 * h1 + h2 \<le> 23"
    and i: "i1 < 10" "i2 < 10" "10 * i1 + i2 \<le> 59"
    and s: "s1 < 10" "s2 < 10" "10 * s1 + s2 \<le> 59"
  shows "\<exists>ps. strptime_match
           (digit_char y1 # digit_char y2 # digit_char y3 # digit_char y4 # CHR ''-'' #
            digit_char m1 # digit_char m2 # CHR ''-'' #
            digit_char d1 # digit_char d2 # CHR '' '' #
            digit_char h1 # digit_char h2 # CHR '':'' #
            digit_char i1 # digit_char i2 # CHR '':'' #
            [digit_char s1, digit_char s2])
         = (([digit_char y1, digit_char y2, digit_char y3, digit_char y4],
             [digit_char m1, digit_char m2], [digit_char d1, digit_char d2],
             [digit_char h1, digit_char h2], [digit_char i1, digit_char i2],
             [digit_char s1, digit_char s2]), []) # ps"
proof -
  let ?r10 = "[digit_char s1, digit_char s2]"
  let ?r9 = "CHR '':'' # ?r10"
  let ?r8 = "digit_char i1 # digit_char i2 # ?r9"
  let ?r7 = "CHR '':'' # ?r8"
  let ?r6 = "digit_char h1 # digit_char h2 # ?r7"
  let ?r5 = "CHR '' '' # ?r6"
  let ?r4 = "digit_char d1 # digit_char d2 # ?r5"
  let ?r3 = "CHR ''-'' # ?r4"
  let ?r2 = "digit_char m1 # digit_char m2 # ?r3"
  let ?r1 = "CHR ''-'' # ?r2"
  note e1 = rx_Y_digits [OF y, of ?r1]
  from rx_m_digits [OF m, of ?r3] obtain p3 where
    e3: "rx_m ?r2 = ([digit_char m1, digit_char m2], ?r3) # p3" ..
  from rx_d_digits [OF d, of ?r5] obtain p5 where
    e5: "rx_d ?r4 = ([digit_char d1, digit_char d2], ?r5) # p5" ..
  note e6 = rx_spaces_one [OF h(1), of "digit_char h2 # ?r7"]
  from rx_H_digits [OF h, of ?r7] obtain p7 where
    e7: "rx_H ?r6 = ([digit_char h1, digit_char h2], ?r7) # p7" ..
  from rx_M_digits [OF i, of ?r9] obtain p9 where
    e9: "rx_M ?r8 = ([digit_char i1, digit_char i2], ?r9) # p9" ..
  from rx_S_digits [OF s, of "[]"] obtain p11 where
    e11: "rx_S ?r10 = ([digit_char s1, digit_char s2], []) # p11" ..
  show ?thesis
    by (simp add: strptime_match_def e1 rx_chr_same e3 e5 e6 e7 e9 e11 del: rx_spaces.simps)
qed

lemma days_in_month_le_31: "1 \<le> m \<Longrightarrow> m \<le> 12 \<Longrightarrow> days_in_month y m \<le> 31"
proof -
  assume "1 \<le> m" "m \<le> 12"
  then have "m = 1 \<or> m = 2 \<or> m = 3 \<or> m = 4 \<or> m = 5 \<or> m = 6
    \<or> m = 7 \<or> m = 8 \<or> m = 9 \<or> m = 10 \<or> m = 11 \<or> m = 12"
    by presburger
  then show ?thesis
    by (auto simp: days_in_month_def DAYS_IN_MONTH_def)
qed

lemma two_digits:
  fixes n :: nat
  assumes "n < 100"
  shows "n div 10 < 10" "n mod 10 < 10" "10 * (n div 10) + n mod 10 = n"
  using assms by simp_all

lemma strptime_strftime:
  assumes date: "check_date_fields (year dt) (month dt) (day dt)"
    and time: "check_time_fields (hour dt) (minute dt) (second dt)"
    and fill: "zero_fill \<or> 1000 \<le> year dt"
  shows "strptime (strftime zero_fill dt) = Inr (dt\<lparr>microsecond := 0\<rparr>)"
proof -
  define Y where "Y = nat (year dt)"
  define Mo where "Mo = nat (month dt)"
  define D where "D = nat (day dt)"
  define H where "H = nat (hour dt)"
  define Mi where "Mi = nat (minute dt)"
  define S where "S = nat (second dt)"
  from date have yr: "1 \<le> year dt" "year dt \<le> 9999" and mr: "1 \<le> month dt" "month dt \<le> 12"
    and dr: "1 \<le> day dt" "day dt \<le> days_in_month (year dt) (month dt)"
    by (simp_all add: check_date_fields_def MINYEAR_def MAXYEAR_def)
  from dr(2) days_in_month_le_31 [OF mr] have d31: "day dt \<le> 31" by (rule order_trans)
  from time have tr: "0 \<le> hour dt" "hour dt \<le> 23" "0 \<le> minute dt" "minute dt \<le> 59"
    "0 \<le> second dt" "second dt \<le> 59"
    by (simp_all add: check_time_fields_def)
  have ints: "int Y = year dt" "int Mo = month dt" "int D = day dt" "int H = hour dt"
    "int Mi = minute dt" "int S = second dt"
    using yr mr dr tr by (simp_all add: Y_def Mo_def D_def H_def Mi_def S_def)
  have bY: "Y < 10000" and bMo: "1 \<le> Mo" "Mo \<le> 12" and bD: "1 \<le> D" "D \<le> 31"
    and bH: "H \<le> 23" and bMi: "Mi \<le> 59" and bS: "S \<le> 59"
    using yr mr dr d31 tr by (simp_all add: Y_def Mo_def D_def H_def Mi_def S_def)
  have ystr1: "zfill 4 (dec_str Y)
      = [digit_char (Y div 1000), digit_char (Y div 100 mod 10),
         digit_char (Y div 10 mod 10), digit_char (Y mod 10)]"
    using bY by (simp add: zfill4)
  have ystr2: "dec_str Y
      = [digit_char (Y div 1000), digit_char (Y div 100 mod 10),
         digit_char (Y div 10 mod 10), digit_char (Y mod 10)]" if "\<not> zero_fill"
  proof -
    from that fill yr have "1000 \<le> Y" by (simp add: Y_def)
    with bY show ?thesis by (simp add: dec_str_4)
  qed
  have fmt: "strftime zero_fill dt =
      digit_char (Y div 1000) # digit_char (Y div 100 mod 10) # digit_char (Y div 10 mod 10) #
      digit_char (Y mod 10) # CHR ''-'' #
      digit_char (Mo div 10) # digit_char (Mo mod 10) # CHR ''-'' #
      digit_char (D div 10) # digit_char (D mod 10) # CHR '' '' #
      digit_char (H div 10) # digit_char (H mod 10) # CHR '':'' #
      digit_char (Mi div 10) # digit_char (Mi mod 10) # CHR '':'' #
      [digit_char (S div 10), digit_char (S mod 10)]"
    using bMo bD bH bMi bS
    by (simp add: strftime_def Y_def [symmetric] Mo_def [symmetric] D_def [symmetric]
        H_def [symmetric] Mi_def [symmetric] S_def [symmetric] ystr1 ystr2 zfill2)
  have y4: "Y div 1000 < 10" "Y div 100 mod 10 < 10" "Y div 10 mod 10 < 10" "Y mod 10 < 10"
    using bY by simp_all
  have m2: "Mo div 10 < 10" "Mo mod 10 < 10" "1 \<le> 10 * (Mo div 10) + Mo mod 10"
    "10 * (Mo div 10) + Mo mod 10 \<le> 12"
    using bMo by simp_all
  have d2: "D div 10 < 10" "D mod 10 < 10" "1 \<le> 10 * (D div 10) + D mod 10"
    "10 * (D div 10) + D mod 10 \<le> 31"
    using bD by simp_all
  have h2: "H div 10 < 10" "H mod 10 < 10" "10 * (H div 10) + H mod 10 \<le> 23"
    using bH by simp_all
  have i2: "Mi div 10 < 10" "Mi mod 10 < 10" "10 * (Mi div 10) + Mi mod 10 \<le> 59"
    using bMi by simp_all
  have s2: "S div 10 < 10" "S mod 10 < 10" "10 * (S div 10) + S mod 10 \<le> 59"
    using bS by simp_all
  from strptime_match_formatted [OF y4 m2 d2 h2 i2 s2] obtain ps where
    mt: "strptime_match (strftime zero_fill dt) =
      (([digit_char (Y div 1000), digit_char (Y div 100 mod 10), digit_char (Y div 10 mod 10),
         digit_char (Y mod 10)],
        [digit_char (Mo div 10), digit_char (Mo mod 10)],
        [digit_char (D div 10), digit_char (D mod 10)],
        [digit_char (H div 10), digit_char (H mod 10)],
        [digit_char (Mi div 10), digit_char (Mi mod 10)],
        [digit_char (S div 10), digit_char (S mod 10)]), []) # ps"
    unfolding fmt by blast
  have vals:
    "int_of_str [digit_char (Y div 1000), digit_char (Y div 100 mod 10),
                 digit_char (Y div 10 mod 10), digit_char (Y mod 10)] = year dt"
    "int_of_str [digit_char (Mo div 10), digit_char (Mo mod 10)] = month dt"
    "int_of_str [digit_char (D div 10), digit_char (D mod 10)] = day dt"
    "int_of_str [digit_char (H div 10), digit_char (H mod 10)] = hour dt"
    "int_of_str [digit_char (Mi div 10), digit_char (Mi mod 10)] = minute dt"
    "int_of_str [digit_char (S div 10), digit_char (S mod 10)] = second dt"
    using y4 m2 d2 h2 i2 s2
    by (simp_all only: int_of_str_4 int_of_str_2 digits4 digits2 ints)
  show ?thesis
    unfolding strptime_def mt
    by (simp add: vals date time)
qed

subsection \<open>From epoch milliseconds to a datetime\<close>

lemma fromtimestamp_ms_ok:
  assumes "ts_in_range t"
  shows "\<exists>dt. fromtimestamp_ms t = Inr dt
           \<and> check_date_fields (year dt) (month dt) (day dt)
           \<and> check_time_fields (hour dt) (minute dt) (second dt)
           \<and> timestamp_s dt = t div 1000
           \<and> (- 30610224000000 \<le> t \<longrightarrow> 1000 \<le> year dt)"
proof -
  define s where "s = t div 1000"
  define dd where "dd = s div 86400"
  define rem where "rem = s mod 86400"
  define n where "n = dd + 719163"
  have f1: "t = s * 1000 + t mod 1000" "0 \<le> t mod 1000" "t mod 1000 < 1000"
    by (simp_all add: s_def)
  have f2: "s = dd * 86400 + rem" "0 \<le> rem" "rem < 86400"
    by (simp_all add: dd_def rem_def)
  from assms f1 f2 have n: "1 \<le> n" "n \<le> MAXORDINAL"
    unfolding ts_in_range_def n_def MAXORDINAL_def by linarith+
  obtain y m d where ymd: "ord2ymd n = (y, m, d)" by (cases "ord2ymd n") auto
  note cal = ord2ymd_correct [OF n(1) ymd]
  define dt where "dt = \<lparr>year = y, month = m, day = d,
      hour = rem div 3600, minute = rem mod 3600 div 60, second = rem mod 60,
      microsecond = (t mod 1000) * 1000\<rparr>"
  have res: "fromtimestamp_ms t = Inr dt"
  proof -
    have e1: "t div 1000 div 86400 + 719163 = n"
      by (simp add: n_def dd_def s_def)
    have e2: "t div 1000 mod 86400 = rem"
      by (simp add: rem_def s_def)
    from n have e3: "(n < 1 \<or> MAXORDINAL < n) = False" by simp
    show ?thesis
      unfolding fromtimestamp_ms_def Let_def
      by (simp only: e1 e2 e3 ymd if_False prod.case dt_def)
  qed
  have date: "check_date_fields (year dt) (month dt) (day dt)"
    using cal n(2) by (simp add: check_date_fields_def dt_def MINYEAR_def)
  define h where "h = rem div 3600"
  define r' where "r' = rem mod 3600"
  have f3: "rem = h * 3600 + r'" "0 \<le> r'" "r' < 3600"
    by (simp_all add: h_def r'_def)
  define mi where "mi = r' div 60"
  define sec where "sec = r' mod 60"
  have f4: "r' = mi * 60 + sec" "0 \<le> sec" "sec < 60"
    by (simp_all add: mi_def sec_def)
  have m60: "rem mod 60 = sec"
    unfolding r'_def sec_def by (simp add: mod_mod_cancel)
  have fields: "year dt = y" "month dt = m" "day dt = d"
    "hour dt = h" "minute dt = mi" "second dt = sec"
    by (simp_all add: dt_def h_def r'_def mi_def m60)
  from f2 f3 f4 have "0 \<le> h" "h \<le> 23" "0 \<le> mi" "mi \<le> 59" by linarith+
  with f4 have time: "check_time_fields (hour dt) (minute dt) (second dt)"
    by (simp add: check_time_fields_def fields)
  from cal have o: "ymd2ord y m d - 719163 = dd" by (simp add: n_def)
  from f2 f3 f4 have "dd * 86400 + h * 3600 + mi * 60 + sec = s"
    by linarith
  then have stamp: "timestamp_s dt = t div 1000"
    by (simp add: timestamp_s_def fields s_def o)
  have "1000 \<le> year dt" if "- 30610224000000 \<le> t"
  proof -
    from that f1 f2 have "364878 \<le> n" unfolding n_def by linarith
    with cal show ?thesis by (simp add: dt_def)
  qed
  with res date time stamp show ?thesis by blast
qed

lemma fromtimestamp_ms_out:
  "\<not> ts_in_range t \<Longrightarrow> fromtimestamp_ms t = Inl ValueError"
proof -
  assume out: "\<not> ts_in_range t"
  have f1: "t = (t div 1000) * 1000 + t mod 1000" "0 \<le> t mod 1000" "t mod 1000 < 1000"
    by simp_all
  have f2: "t div 1000 = (t div 1000 div 86400) * 86400 + t div 1000 mod 86400"
    "0 \<le> t div 1000 mod 86400" "t div 1000 mod 86400 < 86400"
    by simp_all
  from out f1 f2 have "t div 1000 div 86400 + 719163 < 1 \<or> MAXORDINAL < t div 1000 div 86400 + 719163"
    unfolding ts_in_range_def MAXORDINAL_def by linarith
  then show ?thesis
    by (auto simp add: fromtimestamp_ms_def Let_def)
qed

section \<open>Properties of the price stage\<close>



lemma list_all2_unique:
  assumes "list_all2 (\<lambda>r row. f r = Inr row) rs rows" "list_all2 (\<lambda>r row. f r = Inr row) rs rows'"
  shows "rows = rows'"
  using assms by (induction rs arbitrary: rows rows') (auto simp: list_all2_Cons1)



lemma bit_length_pow2: "bit_length (2 ^ n) = int n + 1"
proof (induction n)
  case 0
  show ?case by (subst bit_length.simps, subst bit_length.simps) simp
next
  case (Suc n)
  have "bit_length (2 ^ Suc n) = 1 + bit_length (2 ^ Suc n div 2)"
    by (subst bit_length.simps) simp
  also have "(2::int) ^ Suc n div 2 = 2 ^ n" by simp
  finally show ?case by (simp add: Suc.IH)
qed

lemma floor_pow2: "\<lfloor>(2::rat) ^ n\<rfloor> = 2 ^ n"
proof -
  have "(2::rat) ^ n = of_int (2 ^ n)" by simp
  then show ?thesis by (simp only: floor_of_int)
qed

lemma ilog2_pow2: "ilog2 (2 ^ n) = int n"
  by (simp add: ilog2_def floor_pow2 bit_length_pow2)

lemma round_double_pow2:
  assumes "1024 \<le> n"
  shows "round_double sg (2 ^ n) = Infinity sg"
proof -
  from assms have e: "max (int n - 52) (- 1074) = int (n - 52)" by simp
  have p: "pow2 (int (n - 52)) = 2 ^ (n - 52)" by (simp add: pow2_def)
  from assms have q: "(2::rat) ^ n / 2 ^ (n - 52) = 2 ^ 52"
    by (subst power_diff [symmetric]) simp_all
  have "(2::rat) ^ 52 = of_int (2 ^ 52)" by simp
  then have fl: "\<lfloor>(2::rat) ^ 52\<rfloor> = 2 ^ 52" by (simp only: floor_of_int)
  have rh: "round_half_even ((2::rat) ^ 52) = 2 ^ 52"
    unfolding round_half_even_def Let_def fl by simp
  have r0: "(2::rat) ^ 52 * 2 ^ (n - 52) = 2 ^ (52 + (n - 52))"
    by (simp only: power_add)
  from assms have "52 + (n - 52) = n" by simp
  with r0 have r1: "(2::rat) ^ 52 * 2 ^ (n - 52) = 2 ^ n" by (simp only:)
  have oi: "(of_int (2 ^ 52) :: rat) = 2 ^ 52"
    by (simp only: of_int_power of_int_numeral)
  have r: "(of_int (2 ^ 52) :: rat) * 2 ^ (n - 52) = 2 ^ n"
    unfolding oi by (rule r1)
  show ?thesis
    unfolding round_double_def Let_def ilog2_pow2 e p q rh r
    using assms by simp
qed

lemma float_of_int_pow2:
  assumes "1024 \<le> n"
  shows "float_of_int (2 ^ n) = Inl OverflowError"
proof -
  have "of_int \<bar>2 ^ n :: int\<bar> = (2 ^ n :: rat)" by simp
  then show ?thesis
    unfolding float_of_int_def by (simp only: round_double_pow2 [OF assms]) simp
qed

section \<open>The claims\<close>




text \<open>
  C2. Last write wins by key: whatever the snapshot holds, when the incoming list has a
  record with the \<^verbatim>\<open>'Start Time'\<close> of \<open>e\<close>, the merged dictionary holds under
  that key the last record of the incoming list with that key; a completed run writes
  that record exactly when its timestamp is not before the cutoff, and writes no other
  record with that key.
\<close>

theorem merge_last_write_wins:
  assumes "e \<in> set data"
  shows "map_of (merged f data) (start_time e)
           = Some (last (filter (\<lambda>x. start_time x = start_time e) data))
       \<and> (\<forall>out. save_to_json data f retain_days now = (Inr (), FileJSON out) \<longrightarrow>
            (\<forall>x \<in> set out. start_time x = start_time e \<longrightarrow>
                x = last (filter (\<lambda>x. start_time x = start_time e) data))
            \<and> (\<forall>cutoff. sub_days now retain_days = Inr cutoff \<longrightarrow>
                  (last (filter (\<lambda>x. start_time x = start_time e) data) \<in> set out)
                    = retained cutoff (start_time e)))"
proof -
  let ?w = "last (filter (\<lambda>x. start_time x = start_time e) data)"
  have look: "map_of (merged f data) (start_time e) = Some ?w"
    unfolding merged_def by (rule map_of_assign_all_in [OF assms])
  then have pair: "(start_time e, ?w) \<in> set (merged f data)"
    by (rule map_of_SomeD)
  then have val: "?w \<in> set (dict_values (merged f data))"
    by (force simp: dict_values_def)
  from pair key_ok_merged [of f data] have key: "start_time ?w = start_time e"
    by (auto simp: key_ok_def list_all_iff)
  have only: "x = ?w"
    if run: "save_to_json data f retain_days now = (Inr (), FileJSON out)"
      and x: "x \<in> set out" and k: "start_time x = start_time e" for out x
  proof -
    from save_to_json_written [OF run] x have "x \<in> set (dict_values (merged f data))" by auto
    from values_merged_lookup [OF this] look k show ?thesis by simp
  qed
  have kept: "(?w \<in> set out) = retained cutoff (start_time e)"
    if run: "save_to_json data f retain_days now = (Inr (), FileJSON out)"
      and cut: "sub_days now retain_days = Inr cutoff" for out cutoff
  proof -
    from save_to_json_written [OF run] cut
    have "out = filter (\<lambda>e. retained cutoff (start_time e)) (dict_values (merged f data))"
      by auto
    with val key show ?thesis by simp
  qed
  from look only kept show ?thesis by blast
qed

text \<open>
  An instance: the snapshot has total 5 at 2024-06-10, the incoming list has total 7 and
  then total 9 at the same key; the run writes the record with total 9 and no other.
\<close>

theorem merge_last_write_wins_witness:
  "save_to_json [\<lparr>start_time = ''2024-06-10 00:00:00'', total = PInt 7, price = PInt 1\<rparr>, \<lparr>start_time = ''2024-06-10 00:00:00'', total = PInt 9, price = PInt 1\<rparr>] (FileJSON [\<lparr>start_time = ''2024-06-10 00:00:00'', total = PInt 5, price = PInt 1\<rparr>]) 30 \<lparr>year = 2024, month = 6, day = 15, hour = 12, minute = 0, second = 0, microsecond = 250000\<rparr> = (Inr (), FileJSON [\<lparr>start_time = ''2024-06-10 00:00:00'', total = PInt 9, price = PInt 1\<rparr>])
   \<and> map_of (merged (FileJSON [\<lparr>start_time = ''2024-06-10 00:00:00'', total = PInt 5, price = PInt 1\<rparr>]) [\<lparr>start_time = ''2024-06-10 00:00:00'', total = PInt 7, price = PInt 1\<rparr>, \<lparr>start_time = ''2024-06-10 00:00:00'', total = PInt 9, price = PInt 1\<rparr>]) ''2024-06-10 00:00:00'' = Some \<lparr>start_time = ''2024-06-10 00:00:00'', total = PInt 9, price = PInt 1\<rparr>
   \<and> retained \<lparr>year = 2024, month = 5, day = 16, hour = 12, minute = 0, second = 0, microsecond = 250000\<rparr> ''2024-06-10 00:00:00''"
proof -
  have h: "\<lparr>start_time = ''2024-06-10 00:00:00'', total = PInt 7, price = PInt 1\<rparr> \<in> set [\<lparr>start_time = ''2024-06-10 00:00:00'', total = PInt 7, price = PInt 1\<rparr>, \<lparr>start_time = ''2024-06-10 00:00:00'', total = PInt 9, price = PInt 1\<rparr>]"
    by simp
  have run: "save_to_json [\<lparr>start_time = ''2024-06-10 00:00:00'', total = PInt 7, price = PInt 1\<rparr>, \<lparr>start_time = ''2024-06-10 00:00:00'', total = PInt 9, price = PInt 1\<rparr>] (FileJSON [\<lparr>start_time = ''2024-06-10 00:00:00'', total = PInt 5, price = PInt 1\<rparr>]) 30 \<lparr>year = 2024, month = 6, day = 15, hour = 12, minute = 0, second = 0, microsecond = 250000\<rparr> = (Inr (), FileJSON [\<lparr>start_time = ''2024-06-10 00:00:00'', total = PInt 9, price = PInt 1\<rparr>])"
    by code_simp
  have cut: "sub_days \<lparr>year = 2024, month = 6, day = 15, hour = 12, minute = 0, second = 0, microsecond = 250000\<rparr> 30 = Inr \<lparr>year = 2024, month = 5, day = 16, hour = 12, minute = 0, second = 0, microsecond = 250000\<rparr>"
    by code_simp
  have w: "last (filter (\<lambda>x. start_time x = start_time \<lparr>start_time = ''2024-06-10 00:00:00'', total = PInt 7, price = PInt 1\<rparr>) [\<lparr>start_time = ''2024-06-10 00:00:00'', total = PInt 7, price = PInt 1\<rparr>, \<lparr>start_time = ''2024-06-10 00:00:00'', total = PInt 9, price = PInt 1\<rparr>]) = \<lparr>start_time = ''2024-06-10 00:00:00'', total = PInt 9, price = PInt 1\<rparr>"
    by simp
  from merge_last_write_wins [OF h, of "FileJSON [\<lparr>start_time = ''2024-06-10 00:00:00'', total = PInt 5, price = PInt 1\<rparr>]" 30 "\<lparr>year = 2024, month = 6, day = 15, hour = 12, minute = 0, second = 0, microsecond = 250000\<rparr>"] run cut
  have "map_of (merged (FileJSON [\<lparr>start_time = ''2024-06-10 00:00:00'', total = PInt 5, price = PInt 1\<rparr>]) [\<lparr>start_time = ''2024-06-10 00:00:00'', total = PInt 7, price = PInt 1\<rparr>, \<lparr>start_time = ''2024-06-10 00:00:00'', total = PInt 9, price = PInt 1\<rparr>]) (start_time \<lparr>start_time = ''2024-06-10 00:00:00'', total = PInt 7, price = PInt 1\<rparr>) = Some \<lparr>start_time = ''2024-06-10 00:00:00'', total = PInt 9, price = PInt 1\<rparr>"
    and "(\<lparr>start_time = ''2024-06-10 00:00:00'', total = PInt 9, price = PInt 1\<rparr> \<in> set [\<lparr>start_time = ''2024-06-10 00:00:00'', total = PInt 9, price = PInt 1\<rparr>]) = retained \<lparr>year = 2024, month = 5, day = 16, hour = 12, minute = 0, second = 0, microsecond = 250000\<rparr> (start_time \<lparr>start_time = ''2024-06-10 00:00:00'', total = PInt 7, price = PInt 1\<rparr>)"
    unfolding w by blast+
  with run show ?thesis by simp
qed



text \<open>
  C4 (amended). Order of the written list: \<^verbatim>\<open>save_to_json\<close> does not sort. The
  \<^verbatim>\<open>'Start Time'\<close> values of the written list are the distinct \<^verbatim>\<open>'Start Time'\<close> values
  of the snapshot followed by the incoming list, in the order of their first occurrence,
  without those before the cutoff. The written list is therefore ascending by timestamp
  whenever that sequence of first occurrences is.
\<close>

theorem written_order:
  assumes run: "save_to_json data f retain_days now = (Inr (), FileJSON out)"
  shows "\<exists>cutoff. sub_days now retain_days = Inr cutoff
           \<and> map start_time out
               = filter (retained cutoff) (first_occurrences (map start_time (load_existing f @ data)))
           \<and> (sorted_wrt ts_le (first_occurrences (map start_time (load_existing f @ data)))
                \<longrightarrow> sorted_wrt ts_le (map start_time out))"
proof -
  from save_to_json_written [OF run] obtain c where c: "sub_days now retain_days = Inr c"
    and out: "out = filter (\<lambda>e. retained c (start_time e)) (dict_values (merged f data))"
    by blast
  have "map start_time out = filter (retained c) (map start_time (dict_values (merged f data)))"
    unfolding out by (simp add: filter_map comp_def)
  also have "map start_time (dict_values (merged f data))
               = first_occurrences (map start_time (load_existing f @ data))"
    by (simp only: values_start_time [OF key_ok_merged] keys_merged)
  finally have keys: "map start_time out
      = filter (retained c) (first_occurrences (map start_time (load_existing f @ data)))" .
  have "sorted_wrt ts_le (map start_time out)"
    if "sorted_wrt ts_le (first_occurrences (map start_time (load_existing f @ data)))"
    unfolding keys using that by (rule sorted_wrt_filter)
  with c keys show ?thesis by blast
qed

theorem written_order_witness:
  "\<exists>cutoff. sub_days \<lparr>year = 2024, month = 6, day = 15, hour = 12, minute = 0, second = 0, microsecond = 250000\<rparr> 30 = Inr cutoff
     \<and> map start_time [\<lparr>start_time = ''2024-06-10 00:00:00'', total = PInt 7, price = PInt 1\<rparr>, \<lparr>start_time = ''2024-06-11 00:00:00'', total = PInt 3, price = PInt 1\<rparr>]
         = filter (retained cutoff) (first_occurrences (map start_time (load_existing (FileJSON [\<lparr>start_time = ''2024-05-01 00:00:00'', total = PInt 1, price = PInt 1\<rparr>, \<lparr>start_time = ''2024-06-10 00:00:00'', total = PInt 5, price = PInt 1\<rparr>]) @ [\<lparr>start_time = ''2024-06-10 00:00:00'', total = PInt 7, price = PInt 1\<rparr>, \<lparr>start_time = ''2024-06-11 00:00:00'', total = PInt 3, price = PInt 1\<rparr>])))
     \<and> (sorted_wrt ts_le (first_occurrences (map start_time (load_existing (FileJSON [\<lparr>start_time = ''2024-05-01 00:00:00'', total = PInt 1, price = PInt 1\<rparr>, \<lparr>start_time = ''2024-06-10 00:00:00'', total = PInt 5, price = PInt 1\<rparr>]) @ [\<lparr>start_time = ''2024-06-10 00:00:00'', total = PInt 7, price = PInt 1\<rparr>, \<lparr>start_time = ''2024-06-11 00:00:00'', total = PInt 3, price = PInt 1\<rparr>])))
          \<longrightarrow> sorted_wrt ts_le (map start_time [\<lparr>start_time = ''2024-06-10 00:00:00'', total = PInt 7, price = PInt 1\<rparr>, \<lparr>start_time = ''2024-06-11 00:00:00'', total = PInt 3, price = PInt 1\<rparr>]))"
proof -
  have run: "save_to_json [\<lparr>start_time = ''2024-06-10 00:00:00'', total = PInt 7, price = PInt 1\<rparr>, \<lparr>start_time = ''2024-06-11 00:00:00'', total = PInt 3, price = PInt 1\<rparr>] (FileJSON [\<lparr>start_time = ''2024-05-01 00:00:00'', total = PInt 1, price = PInt 1\<rparr>, \<lparr>start_time = ''2024-06-10 00:00:00'', total = PInt 5, price = PInt 1\<rparr>]) 30 \<lparr>year = 2024, month = 6, day = 15, hour = 12, minute = 0, second = 0, microsecond = 250000\<rparr> = (Inr (), FileJSON [\<lparr>start_time = ''2024-06-10 00:00:00'', total = PInt 7, price = PInt 1\<rparr>, \<lparr>start_time = ''2024-06-11 00:00:00'', total = PInt 3, price = PInt 1\<rparr>])"
    by code_simp
  show ?thesis by (rule written_order [OF run])
qed

text \<open>
  As stated the claim fails: a snapshot that lists 2024-06-11 before 2024-06-10 is written
  back in that order, which is not ascending.
\<close>

theorem written_order_unsorted:
  "save_to_json [] (FileJSON [\<lparr>start_time = ''2024-06-11 00:00:00'', total = PInt 3, price = PInt 1\<rparr>, \<lparr>start_time = ''2024-06-10 00:00:00'', total = PInt 5, price = PInt 1\<rparr>]) 30 \<lparr>year = 2024, month = 6, day = 15, hour = 12, minute = 0, second = 0, microsecond = 250000\<rparr> = (Inr (), FileJSON [\<lparr>start_time = ''2024-06-11 00:00:00'', total = PInt 3, price = PInt 1\<rparr>, \<lparr>start_time = ''2024-06-10 00:00:00'', total = PInt 5, price = PInt 1\<rparr>])
   \<and> \<not> sorted_wrt ts_le (map start_time [\<lparr>start_time = ''2024-06-11 00:00:00'', total = PInt 3, price = PInt 1\<rparr>, \<lparr>start_time = ''2024-06-10 00:00:00'', total = PInt 5, price = PInt 1\<rparr>])"
  by code_simp

text \<open>
  C5. An unparseable entry: \<^verbatim>\<open>parse_datetime\<close> returns \<^verbatim>\<open>None\<close> for it, the comparison
  of \<^verbatim>\<open>None\<close> with the cutoff raises TypeError, and the run ends without writing: the
  entry is not dropped and the other records are not written. Shown at a snapshot with
  one entry whose \<^verbatim>\<open>'Start Time'\<close> is \<^verbatim>\<open>not a date\<close> and one valid incoming record.
\<close>

theorem unparseable_entry_aborts:
  "parse_datetime ''not a date'' = None
   \<and> save_to_json [\<lparr>start_time = ''2024-06-10 00:00:00'', total = PInt 7, price = PInt 1\<rparr>] (FileJSON [\<lparr>start_time = ''not a date'', total = PInt 5, price = PInt 1\<rparr>]) 30 \<lparr>year = 2024, month = 6, day = 15, hour = 12, minute = 0, second = 0, microsecond = 250000\<rparr> = (Inl TypeError, FileJSON [\<lparr>start_time = ''not a date'', total = PInt 5, price = PInt 1\<rparr>])"
  by code_simp




text \<open>
  The exceptions \<^verbatim>\<open>process_data\<close> does raise come from the payload: a start outside the
  range of \<^verbatim>\<open>datetime\<close>, a null object, an integer total too large for a float.
\<close>

lemma process_data_failures:
  "process_data True [\<lparr>readings = Present [\<lparr>reads = Present [\<lparr>interval = Present \<lparr>i_start = Present 253402300800000\<rparr>, metrics = Absent\<rparr>]\<rparr>]\<rparr>] (PFloat (Finite False (5404319552844595 / 36028797018963968))) = Inl ValueError
   \<and> process_data True [\<lparr>readings = Present [\<lparr>reads = Present [\<lparr>interval = Absent, metrics = Null\<rparr>]\<rparr>]\<rparr>] (PFloat (Finite False (5404319552844595 / 36028797018963968))) = Inl AttributeError"
  by code_simp

lemma process_data_int_overflow:
  assumes "1024 \<le> n"
  shows "process_data True [\<lparr>readings = Present [\<lparr>reads = Present [\<lparr>interval = Absent, metrics = Present \<lparr>m_total = Present (PInt (2 ^ n))\<rparr>\<rparr>]\<rparr>]\<rparr>] (PFloat y) = Inl OverflowError"
proof -
  have epoch: "convert_timestamp True 0 = Inr ''1970-01-01 00:00:00''"
    by code_simp
  show ?thesis
    by (simp add: process_data_def get_list_def process_read_def get_start_def get_total_def
        epoch float_of_int_pow2 [OF assms])
qed




text \<open>
  C8 (amended). Order independence: when no two different records of the incoming list
  share a \<^verbatim>\<open>'Start Time'\<close>, merging any permutation of the list gives the same
  key-to-record mapping. (With two different records under one key, the later one wins,
  so the order matters.)
\<close>

theorem merge_permutation_distinct_keys:
  assumes inj: "inj_on start_time (set data)" and perm: "mset data' = mset data"
  shows "map_of (merged f data') = map_of (merged f data)"
proof -
  from perm have s: "set data' = set data" by (rule mset_eq_setD)
  with inj have inj': "inj_on start_time (set data')" by simp
  have "map_of (rev (map (\<lambda>e. (start_time e, e)) data')) = map_of (rev (map (\<lambda>e. (start_time e, e)) data))"
    by (rule ext) (simp add: assign_all_inj_set [OF inj] assign_all_inj_set [OF inj'] s)
  then show ?thesis by (simp add: merged_def map_of_assign_all)
qed

theorem merge_permutation_distinct_keys_witness:
  "map_of (merged (FileJSON [\<lparr>start_time = ''2024-06-10 00:00:00'', total = PInt 5, price = PInt 1\<rparr>]) [\<lparr>start_time = ''2024-06-11 00:00:00'', total = PInt 3, price = PInt 1\<rparr>, \<lparr>start_time = ''2024-06-10 00:00:00'', total = PInt 7, price = PInt 1\<rparr>]) = map_of (merged (FileJSON [\<lparr>start_time = ''2024-06-10 00:00:00'', total = PInt 5, price = PInt 1\<rparr>]) [\<lparr>start_time = ''2024-06-10 00:00:00'', total = PInt 7, price = PInt 1\<rparr>, \<lparr>start_time = ''2024-06-11 00:00:00'', total = PInt 3, price = PInt 1\<rparr>])"
proof -
  have inj: "inj_on start_time (set [\<lparr>start_time = ''2024-06-10 00:00:00'', total = PInt 7, price = PInt 1\<rparr>, \<lparr>start_time = ''2024-06-11 00:00:00'', total = PInt 3, price = PInt 1\<rparr>])"
    by simp
  have perm: "mset [\<lparr>start_time = ''2024-06-11 00:00:00'', total = PInt 3, price = PInt 1\<rparr>, \<lparr>start_time = ''2024-06-10 00:00:00'', total = PInt 7, price = PInt 1\<rparr>] = mset [\<lparr>start_time = ''2024-06-10 00:00:00'', total = PInt 7, price = PInt 1\<rparr>, \<lparr>start_time = ''2024-06-11 00:00:00'', total = PInt 3, price = PInt 1\<rparr>]"
    by simp
  show ?thesis by (rule merge_permutation_distinct_keys [OF inj perm])
qed

text \<open>
  As stated, for every incoming list, the claim fails: swapping two records with the same
  key and totals 5 and 7 changes the merged record at that key.
\<close>

theorem merge_permutation_duplicate_key:
  "mset [\<lparr>start_time = ''2024-06-10 00:00:00'', total = PInt 7, price = PInt 1\<rparr>, \<lparr>start_time = ''2024-06-10 00:00:00'', total = PInt 5, price = PInt 1\<rparr>] = mset [\<lparr>start_time = ''2024-06-10 00:00:00'', total = PInt 5, price = PInt 1\<rparr>, \<lparr>start_time = ''2024-06-10 00:00:00'', total = PInt 7, price = PInt 1\<rparr>]
   \<and> map_of (merged FileNotFound [\<lparr>start_time = ''2024-06-10 00:00:00'', total = PInt 5, price = PInt 1\<rparr>, \<lparr>start_time = ''2024-06-10 00:00:00'', total = PInt 7, price = PInt 1\<rparr>]) ''2024-06-10 00:00:00'' = Some \<lparr>start_time = ''2024-06-10 00:00:00'', total = PInt 7, price = PInt 1\<rparr>
   \<and> map_of (merged FileNotFound [\<lparr>start_time = ''2024-06-10 00:00:00'', total = PInt 7, price = PInt 1\<rparr>, \<lparr>start_time = ''2024-06-10 00:00:00'', total = PInt 5, price = PInt 1\<rparr>]) ''2024-06-10 00:00:00'' = Some \<lparr>start_time = ''2024-06-10 00:00:00'', total = PInt 5, price = PInt 1\<rparr>
   \<and> map_of (merged FileNotFound [\<lparr>start_time = ''2024-06-10 00:00:00'', total = PInt 7, price = PInt 1\<rparr>, \<lparr>start_time = ''2024-06-10 00:00:00'', total = PInt 5, price = PInt 1\<rparr>]) \<noteq> map_of (merged FileNotFound [\<lparr>start_time = ''2024-06-10 00:00:00'', total = PInt 5, price = PInt 1\<rparr>, \<lparr>start_time = ''2024-06-10 00:00:00'', total = PInt 7, price = PInt 1\<rparr>])"
proof -
  have a: "map_of (merged FileNotFound [\<lparr>start_time = ''2024-06-10 00:00:00'', total = PInt 5, price = PInt 1\<rparr>, \<lparr>start_time = ''2024-06-10 00:00:00'', total = PInt 7, price = PInt 1\<rparr>]) ''2024-06-10 00:00:00'' = Some \<lparr>start_time = ''2024-06-10 00:00:00'', total = PInt 7, price = PInt 1\<rparr>"
    by (simp add: merged_def load_existing_def assign_all_def)
  have b: "map_of (merged FileNotFound [\<lparr>start_time = ''2024-06-10 00:00:00'', total = PInt 7, price = PInt 1\<rparr>, \<lparr>start_time = ''2024-06-10 00:00:00'', total = PInt 5, price = PInt 1\<rparr>]) ''2024-06-10 00:00:00'' = Some \<lparr>start_time = ''2024-06-10 00:00:00'', total = PInt 5, price = PInt 1\<rparr>"
    by (simp add: merged_def load_existing_def assign_all_def)
  have "map_of (merged FileNotFound [\<lparr>start_time = ''2024-06-10 00:00:00'', total = PInt 7, price = PInt 1\<rparr>, \<lparr>start_time = ''2024-06-10 00:00:00'', total = PInt 5, price = PInt 1\<rparr>]) \<noteq> map_of (merged FileNotFound [\<lparr>start_time = ''2024-06-10 00:00:00'', total = PInt 5, price = PInt 1\<rparr>, \<lparr>start_time = ''2024-06-10 00:00:00'', total = PInt 7, price = PInt 1\<rparr>])"
  proof
    assume "map_of (merged FileNotFound [\<lparr>start_time = ''2024-06-10 00:00:00'', total = PInt 7, price = PInt 1\<rparr>, \<lparr>start_time = ''2024-06-10 00:00:00'', total = PInt 5, price = PInt 1\<rparr>]) = map_of (merged FileNotFound [\<lparr>start_time = ''2024-06-10 00:00:00'', total = PInt 5, price = PInt 1\<rparr>, \<lparr>start_time = ''2024-06-10 00:00:00'', total = PInt 7, price = PInt 1\<rparr>])"
    then have "map_of (merged FileNotFound [\<lparr>start_time = ''2024-06-10 00:00:00'', total = PInt 7, price = PInt 1\<rparr>, \<lparr>start_time = ''2024-06-10 00:00:00'', total = PInt 5, price = PInt 1\<rparr>]) ''2024-06-10 00:00:00'' = map_of (merged FileNotFound [\<lparr>start_time = ''2024-06-10 00:00:00'', total = PInt 5, price = PInt 1\<rparr>, \<lparr>start_time = ''2024-06-10 00:00:00'', total = PInt 7, price = PInt 1\<rparr>]) ''2024-06-10 00:00:00''"
      by (rule fun_cong)
    then show False unfolding a b by simp
  qed
  with a b show ?thesis by simp
qed

text \<open>
  C9 (amended). Round trip of formatting and parsing: for every epoch-milliseconds value
  \<open>t\<close> whose second lies in the range of \<^verbatim>\<open>datetime\<close> (0001-01-01 00:00:00 to
  9999-12-31 23:59:59 UTC), \<^verbatim>\<open>convert_timestamp\<close> returns a string on which
  \<^verbatim>\<open>parse_datetime\<close> does not return \<^verbatim>\<open>None\<close> but the UTC datetime of \<open>t\<close> truncated to
  the second: its POSIX timestamp is \<open>floor (t / 1000)\<close> and its microsecond is 0. Where
  \<^verbatim>\<open>strftime\<close> does not zero fill the year, this holds from year 1000 on. Outside the
  range \<^verbatim>\<open>convert_timestamp\<close> raises.
\<close>

theorem timestamp_round_trip:
  assumes range: "ts_in_range t" and fill: "zero_fill \<or> - 30610224000000 \<le> t"
  shows "\<exists>s dt. convert_timestamp zero_fill t = Inr s \<and> parse_datetime s = Some dt
           \<and> timestamp_s dt = t div 1000 \<and> microsecond dt = 0
           \<and> fromtimestamp_ms (1000 * (t div 1000)) = Inr dt"
proof -
  from fromtimestamp_ms_ok [OF range] obtain dt where
    res: "fromtimestamp_ms t = Inr dt"
    and date: "check_date_fields (year dt) (month dt) (day dt)"
    and time: "check_time_fields (hour dt) (minute dt) (second dt)"
    and stamp: "timestamp_s dt = t div 1000"
    and y1000: "- 30610224000000 \<le> t \<longrightarrow> 1000 \<le> year dt"
    by blast
  from fill y1000 have fill': "zero_fill \<or> 1000 \<le> year dt" by blast
  have conv: "convert_timestamp zero_fill t = Inr (strftime zero_fill dt)"
    by (simp add: convert_timestamp_def res)
  have parse: "parse_datetime (strftime zero_fill dt) = Some (dt\<lparr>microsecond := 0\<rparr>)"
    by (simp add: parse_datetime_def strptime_strftime [OF date time fill'])
  have trunc: "fromtimestamp_ms (1000 * (t div 1000)) = Inr (dt\<lparr>microsecond := 0\<rparr>)"
    using res by (auto simp add: fromtimestamp_ms_def Let_def split: if_splits prod.splits)
  have "timestamp_s (dt\<lparr>microsecond := 0\<rparr>) = t div 1000"
    using stamp by (simp add: timestamp_s_def)
  with conv parse trunc show ?thesis by simp
qed

text \<open>An instance: 1700000000000 ms is 2023-11-14 22:13:20 UTC.\<close>

theorem timestamp_round_trip_witness:
  "convert_timestamp False 1700000000000 = Inr ''2023-11-14 22:13:20''
   \<and> (\<exists>dt. parse_datetime ''2023-11-14 22:13:20'' = Some dt
          \<and> timestamp_s dt = 1700000000 \<and> microsecond dt = 0)"
proof -
  have range: "ts_in_range 1700000000000"
    by (simp add: ts_in_range_def)
  have fill: "False \<or> - 30610224000000 \<le> (1700000000000 :: int)"
    by simp
  have conv: "convert_timestamp False 1700000000000 = Inr ''2023-11-14 22:13:20''"
    by code_simp
  from timestamp_round_trip [OF range fill] obtain s dt where
    "convert_timestamp False 1700000000000 = Inr s" "parse_datetime s = Some dt"
    "timestamp_s dt = 1700000000000 div 1000" "microsecond dt = 0"
    by blast
  with conv have "parse_datetime ''2023-11-14 22:13:20'' = Some dt
      \<and> timestamp_s dt = 1700000000 \<and> microsecond dt = 0"
    by simp
  with conv show ?thesis by blast
qed

text \<open>
  As stated, for every epoch-milliseconds value, the claim fails: the first millisecond
  of year 10000 has no datetime, and \<^verbatim>\<open>convert_timestamp\<close> raises instead of returning.
\<close>

theorem timestamp_out_of_range:
  "convert_timestamp True 253402300800000 = Inl ValueError
   \<and> convert_timestamp False 253402300800000 = Inl ValueError"
  by code_simp

text \<open>
  Without zero fill the last second of year 999 is formatted with a three digit year,
  which the format \<^verbatim>\<open>%Y\<close> of \<^verbatim>\<open>strptime\<close> does not match.
\<close>

lemma unpadded_year_not_parsed:
  "convert_timestamp False (- 30610224000001) = Inr ''999-12-31 23:59:59''
   \<and> parse_datetime ''999-12-31 23:59:59'' = None"
  by code_simp

text \<open>
  C10. Key uniqueness: for every snapshot, also one with repeated \<^verbatim>\<open>'Start Time'\<close>
  values, and every incoming list, the list a completed run writes has at most one entry
  per \<^verbatim>\<open>'Start Time'\<close>.
\<close>

theorem written_keys_unique:
  assumes "save_to_json data f retain_days now = (Inr (), FileJSON out)"
  shows "distinct (map start_time out)"
proof -
  from save_to_json_written [OF assms] obtain c where
    out: "out = filter (\<lambda>e. retained c (start_time e)) (dict_values (merged f data))" by blast
  have "distinct (map start_time (dict_values (merged f data)))"
    by (simp only: values_start_time [OF key_ok_merged] distinct_merged)
  then show ?thesis unfolding out by (rule distinct_map_filter)
qed

theorem written_keys_unique_witness:
  "distinct (map start_time [\<lparr>start_time = ''2024-06-10 00:00:00'', total = PInt 7, price = PInt 1\<rparr>, \<lparr>start_time = ''2024-06-11 00:00:00'', total = PInt 3, price = PInt 1\<rparr>])"
proof -
  have run: "save_to_json [\<lparr>start_time = ''2024-06-10 00:00:00'', total = PInt 7, price = PInt 1\<rparr>, \<lparr>start_time = ''2024-06-11 00:00:00'', total = PInt 3, price = PInt 1\<rparr>, \<lparr>start_time = ''2024-06-10 00:00:00'', total = PInt 7, price = PInt 1\<rparr>] (FileJSON [\<lparr>start_time = ''2024-06-10 00:00:00'', total = PInt 5, price = PInt 1\<rparr>, \<lparr>start_time = ''2024-06-10 00:00:00'', total = PInt 5, price = PInt 1\<rparr>, \<lparr>start_time = ''2024-05-01 00:00:00'', total = PInt 1, price = PInt 1\<rparr>]) 30 \<lparr>year = 2024, month = 6, day = 15, hour = 12, minute = 0, second = 0, microsecond = 250000\<rparr> = (Inr (), FileJSON [\<lparr>start_time = ''2024-06-10 00:00:00'', total = PInt 7, price = PInt 1\<rparr>, \<lparr>start_time = ''2024-06-11 00:00:00'', total = PInt 3, price = PInt 1\<rparr>])"
    by code_simp
  show ?thesis by (rule written_keys_unique [OF run])
qed

end
